theory Spec2Isabelle
  imports Main
begin

section \<open>The Go string functions the link service calls\<close>

text \<open>
  A Go string is a sequence of bytes; \<^typ>\<open>string\<close> (a list of 8-bit characters) is the
  same thing.  The functions of this section are the ones of Go's \<^verbatim>\<open>strings\<close> and
  \<^verbatim>\<open>net/url\<close> packages that \<^verbatim>\<open>internal/service/link.go\<close> calls, written from their
  documented behaviour.
\<close>

text \<open>\<^verbatim>\<open>strings.HasPrefix(s, prefix)\<close>: \<^verbatim>\<open>len(s) >= len(prefix) && s[:len(prefix)] == prefix\<close>.\<close>

definition HasPrefix :: "string \<Rightarrow> string \<Rightarrow> bool" where
  "HasPrefix s pre = (length pre \<le> length s \<and> take (length pre) s = pre)"

text \<open>\<^verbatim>\<open>strings.HasSuffix(s, suffix)\<close>: \<^verbatim>\<open>len(s) >= len(suffix) && s[len(s)-len(suffix):] == suffix\<close>.\<close>

definition HasSuffix :: "string \<Rightarrow> string \<Rightarrow> bool" where
  "HasSuffix s suf = (length suf \<le> length s \<and> drop (length s - length suf) s = suf)"

text \<open>\<^verbatim>\<open>strings.Contains(s, substr)\<close>: \<^verbatim>\<open>substr\<close> occurs at some byte offset of \<^verbatim>\<open>s\<close>.\<close>

fun Contains :: "string \<Rightarrow> string \<Rightarrow> bool" where
  "Contains [] sub = (sub = [])"
| "Contains (c # cs) sub = (HasPrefix (c # cs) sub \<or> Contains cs sub)"

text \<open>\<^verbatim>\<open>strings.Join(elems, sep)\<close>.\<close>

fun Join :: "string list \<Rightarrow> string \<Rightarrow> string" where
  "Join [] sep = []"
| "Join [a] sep = a"
| "Join (a # b # rest) sep = a @ sep @ Join (b # rest) sep"

text \<open>
  White space, as \<^verbatim>\<open>unicode.IsSpace\<close> defines it, in its UTF-8 encoding: the six ASCII
  characters tab, line feed, vertical tab, form feed, carriage return and space; U+0085
  and U+00A0; and the code points of category Z with property White_Space: U+1680,
  U+2000 to U+200A, U+2028, U+2029, U+202F, U+205F and U+3000.  Go decodes a string
  rune by rune; a byte that starts no valid encoding is the rune U+FFFD of width one,
  which is no space.  No encoding in this table starts with a continuation byte and
  every byte after the first is one, so a white-space rune stands at a byte offset
  exactly when one of these encodings does.
\<close>

definition spaceEncodings :: "string list" where
  "spaceEncodings =
    [[CHR 0x09], [CHR 0x0A], [CHR 0x0B], [CHR 0x0C], [CHR 0x0D], [CHR 0x20],
     [CHR 0xC2, CHR 0x85], [CHR 0xC2, CHR 0xA0],
     [CHR 0xE1, CHR 0x9A, CHR 0x80],
     [CHR 0xE2, CHR 0x80, CHR 0x80], [CHR 0xE2, CHR 0x80, CHR 0x81],
     [CHR 0xE2, CHR 0x80, CHR 0x82], [CHR 0xE2, CHR 0x80, CHR 0x83],
     [CHR 0xE2, CHR 0x80, CHR 0x84], [CHR 0xE2, CHR 0x80, CHR 0x85],
     [CHR 0xE2, CHR 0x80, CHR 0x86], [CHR 0xE2, CHR 0x80, CHR 0x87],
     [CHR 0xE2, CHR 0x80, CHR 0x88], [CHR 0xE2, CHR 0x80, CHR 0x89],
     [CHR 0xE2, CHR 0x80, CHR 0x8A],
     [CHR 0xE2, CHR 0x80, CHR 0xA8], [CHR 0xE2, CHR 0x80, CHR 0xA9],
     [CHR 0xE2, CHR 0x80, CHR 0xAF],
     [CHR 0xE2, CHR 0x81, CHR 0x9F],
     [CHR 0xE3, CHR 0x80, CHR 0x80]]"

text \<open>The width in bytes of the white-space rune a string starts with (0: it starts with none).\<close>

definition spaceLen :: "string \<Rightarrow> nat" where
  "spaceLen s = (case find (HasPrefix s) spaceEncodings of None \<Rightarrow> 0 | Some e \<Rightarrow> length e)"

text \<open>The width of the white-space rune a string ends with
  (\<^verbatim>\<open>utf8.DecodeLastRuneInString\<close>; 0: it ends with none).\<close>

definition lastSpaceLen :: "string \<Rightarrow> nat" where
  "lastSpaceLen s = (case find (HasSuffix s) spaceEncodings of None \<Rightarrow> 0 | Some e \<Rightarrow> length e)"

text \<open>\<^verbatim>\<open>strings.TrimSpace(s)\<close> is \<^verbatim>\<open>TrimRightFunc(TrimLeftFunc(s, unicode.IsSpace), unicode.IsSpace)\<close>
  (the ASCII fast path of the library computes the same slice).\<close>

function trimLeft :: "string \<Rightarrow> string" where
  "trimLeft s = (if 0 < spaceLen s then trimLeft (drop (spaceLen s) s) else s)"
  by pat_completeness auto
termination
proof (relation "measure length")
  show "wf (measure length)" by simp
next
  fix s :: string
  assume "0 < spaceLen s"
  then obtain e where "find (HasPrefix s) spaceEncodings = Some e"
    by (auto simp: spaceLen_def split: option.splits)
  then have "HasPrefix s e" by (auto simp: find_Some_iff)
  moreover from \<open>0 < spaceLen s\<close> have "s \<noteq> []"
    by (auto simp: spaceLen_def spaceEncodings_def HasPrefix_def)
  ultimately show "(drop (spaceLen s) s, s) \<in> measure length"
    using \<open>0 < spaceLen s\<close> by simp
qed

function trimRight :: "string \<Rightarrow> string" where
  "trimRight s = (if 0 < lastSpaceLen s then trimRight (take (length s - lastSpaceLen s) s) else s)"
  by pat_completeness auto
termination
proof (relation "measure length")
  show "wf (measure length)" by simp
next
  fix s :: string
  assume "0 < lastSpaceLen s"
  moreover from this have "s \<noteq> []"
    by (auto simp: lastSpaceLen_def spaceEncodings_def HasSuffix_def)
  ultimately show "(take (length s - lastSpaceLen s) s, s) \<in> measure length"
    by simp
qed

definition TrimSpace :: "string \<Rightarrow> string" where
  "TrimSpace s = trimRight (trimLeft s)"

text \<open>
  \<^verbatim>\<open>strings.Fields(s)\<close>: the maximal runs of bytes between white-space runes.  The scan
  keeps the field it is reading in \<open>cur\<close>; a white-space rune ends it.
\<close>

function splitFields :: "string \<Rightarrow> string \<Rightarrow> string list" where
  "splitFields cur s =
     (if s = [] then (if cur = [] then [] else [cur])
      else if 0 < spaceLen s
        then (if cur = [] then [] else [cur]) @ splitFields [] (drop (spaceLen s) s)
      else splitFields (cur @ [hd s]) (tl s))"
  by pat_completeness auto
termination
  by (relation "measure (\<lambda>(cur, s). length s)") auto

definition Fields :: "string \<Rightarrow> string list" where
  "Fields s = splitFields [] s"

text \<open>
  \<^verbatim>\<open>strings.ReplaceAll(s, old, new)\<close> for a non-empty \<open>old\<close>: the non-overlapping
  occurrences of \<open>old\<close>, found from left to right, each replaced by \<open>new\<close>.  The service
  calls it with \<open>old = "{*}"\<close> only; for an empty \<open>old\<close> (where Go inserts \<open>new\<close> around
  every rune) the function below returns \<open>s\<close> and is not a model of Go.
\<close>

function ReplaceAll :: "string \<Rightarrow> string \<Rightarrow> string \<Rightarrow> string" where
  "ReplaceAll s old new =
     (if s = [] \<or> old = [] then s
      else if HasPrefix s old then new @ ReplaceAll (drop (length old) s) old new
      else hd s # ReplaceAll (tl s) old new)"
  by pat_completeness auto
termination
  by (relation "measure (\<lambda>(s, old, new). length s)") auto

text \<open>
  \<^verbatim>\<open>url.QueryEscape(s)\<close>: \<^verbatim>\<open>escape(s, encodeQueryComponent)\<close>.  Letters, digits and
  \<^verbatim>\<open>- _ . ~\<close> stay; a space becomes \<^verbatim>\<open>+\<close>; every other byte becomes \<^verbatim>\<open>%XX\<close> with
  upper-case hexadecimal digits.
\<close>

definition shouldEscape :: "char \<Rightarrow> bool" where
  "shouldEscape c =
     (let n = (of_char c :: nat) in
      \<not> ((97 \<le> n \<and> n \<le> 122) \<or> (65 \<le> n \<and> n \<le> 90) \<or> (48 \<le> n \<and> n \<le> 57)
         \<or> c = CHR ''-'' \<or> c = CHR ''_'' \<or> c = CHR ''.'' \<or> c = CHR ''~''))"

definition upperhex :: string where
  "upperhex = ''0123456789ABCDEF''"

definition escapeByte :: "char \<Rightarrow> string" where
  "escapeByte c =
     (if shouldEscape c
      then (if c = CHR '' '' then ''+''
            else [CHR ''%'', upperhex ! ((of_char c :: nat) div 16), upperhex ! ((of_char c :: nat) mod 16)])
      else [c])"

definition QueryEscape :: "string \<Rightarrow> string" where
  "QueryEscape s = concat (map escapeByte s)"

section \<open>The domain model (\<^verbatim>\<open>internal/domain/models.go\<close>)\<close>

text \<open>Go's \<^verbatim>\<open>int\<close> identifiers are \<^typ>\<open>int\<close>; a \<^verbatim>\<open>time.Time\<close> is an instant, a \<^typ>\<open>nat\<close>.\<close>

record Shortcut =
  ID :: int
  Word :: string
  Link :: string
  User :: string
  CreatedAt :: nat

text \<open>A row of the table \<^verbatim>\<open>queries\<close> (the struct \<^verbatim>\<open>Query\<close>: \<^verbatim>\<open>ID\<close>, \<^verbatim>\<open>WordID\<close>, \<^verbatim>\<open>CreatedAt\<close>).\<close>

record Query =
  QueryID :: int
  WordID :: int
  QueryCreatedAt :: nat

text \<open>The struct \<^verbatim>\<open>LinkRequest\<close> (\<^verbatim>\<open>Word\<close>, \<^verbatim>\<open>Link\<close>).\<close>

record LinkRequest =
  ReqWord :: string
  ReqLink :: string

text \<open>The struct \<^verbatim>\<open>KeywordInfo\<close> (\<^verbatim>\<open>Word\<close>, \<^verbatim>\<open>Link\<close>, \<^verbatim>\<open>CreatedAt\<close>).\<close>

record KeywordInfo =
  KeywordWord :: string
  KeywordLink :: string
  KeywordCreatedAt :: nat

text \<open>
  Go errors: the service's \<^verbatim>\<open>InvalidQueryError{Message}\<close>, an error of the database
  driver, and \<^verbatim>\<open>fmt.Errorf("<text>: %w", err)\<close>, which wraps an error in a new one (a
  wrapped error is no \<^verbatim>\<open>InvalidQueryError\<close> for the handlers' type assertion).
\<close>

datatype error =
    InvalidQueryError string
  | StorageError string
  | Errorf string error

section \<open>The repositories (\<^verbatim>\<open>internal/repository\<close>)\<close>

text \<open>
  The table \<^verbatim>\<open>linktable\<close> is the list of its rows in insertion order; \<^verbatim>\<open>id\<close> is its
  \<^verbatim>\<open>INTEGER PRIMARY KEY AUTOINCREMENT\<close>.  The program never deletes or updates a row.
\<close>

record DB =
  linktable :: "Shortcut list"
  queries :: "Query list"

text \<open>\<^verbatim>\<open>ORDER BY id DESC\<close>.\<close>

definition orderByIdDesc :: "Shortcut list \<Rightarrow> Shortcut list" where
  "orderByIdDesc rows = rev (sort_key ID rows)"

text \<open>
  \<^verbatim>\<open>GetByWord\<close>:
  \<^verbatim>\<open>SELECT id, word, link, user, created_at FROM linktable WHERE word = ? ORDER BY id DESC LIMIT 1\<close>;
  \<^verbatim>\<open>sql.ErrNoRows\<close> is the result \<^verbatim>\<open>nil, nil\<close>.
\<close>

definition ShortcutRepository_GetByWord :: "Shortcut list \<Rightarrow> string \<Rightarrow> Shortcut option" where
  "ShortcutRepository_GetByWord rows word =
     (case orderByIdDesc (filter (\<lambda>r. Word r = word) rows) of
        [] \<Rightarrow> None
      | r # _ \<Rightarrow> Some r)"

text \<open>The identifier \<^verbatim>\<open>AUTOINCREMENT\<close> gives the next row: one more than the largest so far.\<close>

definition nextId :: "int list \<Rightarrow> int" where
  "nextId ids = fold max ids 0 + 1"

text \<open>
  \<^verbatim>\<open>Create\<close>: \<^verbatim>\<open>INSERT INTO linktable (word, link, user, created_at) VALUES (?, ?, ?, CURRENT_TIMESTAMP)\<close>
  at the instant \<open>now\<close>; the struct's own \<^verbatim>\<open>ID\<close> and \<^verbatim>\<open>CreatedAt\<close> are not read.
  The result is the table with the new row.
\<close>

definition ShortcutRepository_Create :: "nat \<Rightarrow> Shortcut list \<Rightarrow> Shortcut \<Rightarrow> Shortcut list" where
  "ShortcutRepository_Create now rows shortcut =
     rows @ [shortcut\<lparr>ID := nextId (map ID rows), CreatedAt := now\<rparr>]"

text \<open>
  \<^verbatim>\<open>GetAllKeywords\<close>:
  \<^verbatim>\<open>SELECT word, link, created_at, MAX(id) as max_id FROM linktable GROUP BY word ORDER BY max_id DESC\<close>.
  With \<^verbatim>\<open>MAX\<close> as the only aggregate, SQLite takes the other columns of a group from the
  row that holds the maximum: \<open>latestRows\<close> are those rows, and the result their first
  three columns.
\<close>

definition latestRows :: "Shortcut list \<Rightarrow> Shortcut list" where
  "latestRows rows =
     orderByIdDesc (filter (\<lambda>r. list_all (\<lambda>x. Word x = Word r \<longrightarrow> ID x \<le> ID r) rows) rows)"

definition toKeywordInfo :: "Shortcut \<Rightarrow> KeywordInfo" where
  "toKeywordInfo r = \<lparr>KeywordWord = Word r, KeywordLink = Link r, KeywordCreatedAt = CreatedAt r\<rparr>"

definition ShortcutRepository_GetAllKeywords :: "Shortcut list \<Rightarrow> KeywordInfo list" where
  "ShortcutRepository_GetAllKeywords rows = map toKeywordInfo (latestRows rows)"

text \<open>
  \<^verbatim>\<open>QueryRepository.Create\<close>: \<^verbatim>\<open>INSERT INTO queries (word_id, created_at) VALUES (?, CURRENT_TIMESTAMP)\<close>.
  The connection is opened with \<^verbatim>\<open>_foreign_keys=on\<close> and \<^verbatim>\<open>word_id\<close> references
  \<^verbatim>\<open>linktable(id)\<close>, so the insert fails for an identifier that is no row's.
\<close>

definition QueryRepository_Create :: "nat \<Rightarrow> DB \<Rightarrow> int \<Rightarrow> error option \<times> DB" where
  "QueryRepository_Create now db wordID =
     (if wordID \<in> set (map ID (linktable db))
      then (None, db\<lparr>queries := queries db @
              [\<lparr>QueryID = nextId (map QueryID (queries db)), WordID = wordID, QueryCreatedAt = now\<rparr>]\<rparr>)
      else (Some (Errorf ''failed to create query log'' (StorageError ''FOREIGN KEY constraint failed'')), db))"

text \<open>The two repositories over one database, as the service sees them: each call
  takes the state of the world and returns its result and the new state.\<close>

definition dbGetByWord :: "DB \<Rightarrow> string \<Rightarrow> (error + Shortcut option) \<times> DB" where
  "dbGetByWord db word = (Inr (ShortcutRepository_GetByWord (linktable db) word), db)"

definition dbCreate :: "nat \<Rightarrow> DB \<Rightarrow> Shortcut \<Rightarrow> error option \<times> DB" where
  "dbCreate now db shortcut =
     (None, db\<lparr>linktable := ShortcutRepository_Create now (linktable db) shortcut\<rparr>)"

definition dbGetAllKeywords :: "DB \<Rightarrow> (error + KeywordInfo list) \<times> DB" where
  "dbGetAllKeywords db = (Inr (ShortcutRepository_GetAllKeywords (linktable db)), db)"

section \<open>The link service (\<^verbatim>\<open>internal/service/link.go\<close>)\<close>

text \<open>
  The functions below follow the text of \<^verbatim>\<open>link.go\<close> that logs through
  \<^verbatim>\<open>internal/logger\<close>, in which \<^verbatim>\<open>UpdateLink\<close> refuses a link that is no URL; the calls of
  the logger are left out (they return nothing the service reads).  An older text of
  the file, also in the sources, stored a link that is no URL when the link resolved as
  an alias.

  The service holds its two repositories as interfaces.  Here a repository method is a
  function from the state of the world \<open>'w\<close> (whatever the implementations keep) and
  the arguments to the result and the new state.
\<close>

type_synonym 'w getByWord = "'w \<Rightarrow> string \<Rightarrow> (error + Shortcut option) \<times> 'w"
type_synonym 'w createShortcut = "'w \<Rightarrow> Shortcut \<Rightarrow> error option \<times> 'w"
type_synonym 'w getAllKeywords = "'w \<Rightarrow> (error + KeywordInfo list) \<times> 'w"
type_synonym 'w createQuery = "'w \<Rightarrow> int \<Rightarrow> error option \<times> 'w"

definition isURL :: "string \<Rightarrow> bool" where
  "isURL link = (HasPrefix link ''http://'' \<or> HasPrefix link ''https://'')"

definition processResultLink :: "string \<Rightarrow> string \<Rightarrow> string" where
  "processResultLink link searchTerm =
     (let searchTerm1 = ReplaceAll searchTerm ''{*}'' [];
          searchTerm2 = TrimSpace searchTerm1;
          searchTerm3 = QueryEscape searchTerm2;
          resultLink = ReplaceAll link ''{*}'' searchTerm3
      in TrimSpace resultLink)"

definition moveLastWord :: "string \<Rightarrow> string \<Rightarrow> string \<times> string" where
  "moveLastWord moveFrom moveTo =
     (let moveFromWords = Fields moveFrom in
      if length moveFromWords = 0 then (moveFrom, moveTo)
      else
        let lastWord = last moveFromWords;
            moveToWords = Fields moveTo;
            moveFromOut = Join (butlast moveFromWords) '' '';
            moveToOut = Join ([lastWord] @ moveToWords) '' ''
        in (moveFromOut, moveToOut))"

text \<open>
  \<^verbatim>\<open>GetLink\<close> calls itself after a failed lookup of a head with a space in it, and after
  a hit whose link is no URL; nothing bounds the second recursion, so the function is
  partial: \<open>None\<close> is a call that never returns.
\<close>

partial_function (option) GetLink ::
  "'w getByWord \<Rightarrow> 'w createQuery \<Rightarrow> 'w \<Rightarrow> string \<Rightarrow> string \<Rightarrow> ((error + string) \<times> 'w) option"
where
  "GetLink getByWord createQuery w word searchTerm =
     (let word' = TrimSpace word in
      case getByWord w word' of
        (Inl err, w1) \<Rightarrow> Some (Inl (Errorf ''failed to get shortcut'' err), w1)
      | (Inr None, w1) \<Rightarrow>
          if Contains word' '' '' then
            (case moveLastWord word' searchTerm of
               (newWord, newSearchTerm) \<Rightarrow> GetLink getByWord createQuery w1 newWord newSearchTerm)
          else
            Some (Inl (InvalidQueryError
                    (''Unable to find link for query '' @ Join [word', searchTerm] '' '')), w1)
      | (Inr (Some shortcut), w1) \<Rightarrow>
          (case createQuery w1 (ID shortcut) of
             (logErr, w2) \<Rightarrow>
               if \<not> isURL (Link shortcut) then
                 GetLink getByWord createQuery w2 (Link shortcut) searchTerm
               else Some (Inr (processResultLink (Link shortcut) searchTerm), w2)))"

text \<open>\<^verbatim>\<open>RedirectHandler\<close> resolves a query with
  \<^verbatim>\<open>h.linkService.GetLink(ctx, queryPath, "")\<close>.\<close>

definition Resolve ::
  "'w getByWord \<Rightarrow> 'w createQuery \<Rightarrow> 'w \<Rightarrow> string \<Rightarrow> ((error + string) \<times> 'w) option" where
  "Resolve getByWord createQuery w query = GetLink getByWord createQuery w query []"

text \<open>\<^verbatim>\<open>validateLinkRequest\<close> trims its own copy of the request (Go passes the struct
  by value): the caller's request stays as it was.\<close>

definition validateLinkRequest :: "LinkRequest \<Rightarrow> error option" where
  "validateLinkRequest req =
     (let word = TrimSpace (ReqWord req); link = TrimSpace (ReqLink req) in
      if word = [] then Some (InvalidQueryError ''No word given, cannot setup a golink'')
      else if HasSuffix word ''/'' then
        Some (InvalidQueryError ''Words ending in a '/' are not supported'')
      else if link = [] then Some (InvalidQueryError ''No link given, cannot setup a golink'')
      else if link = word then
        Some (InvalidQueryError ''Word points to itself, will cause a recursive lookup'')
      else None)"

text \<open>\<^verbatim>\<open>UpdateLink\<close>; \<open>now\<close> is what \<^verbatim>\<open>time.Now()\<close> returns.  The new struct's \<^verbatim>\<open>ID\<close>
  is Go's zero value.\<close>

definition UpdateLink ::
  "'w createShortcut \<Rightarrow> nat \<Rightarrow> 'w \<Rightarrow> LinkRequest \<Rightarrow> string \<Rightarrow> error option \<times> 'w" where
  "UpdateLink create now w req userID =
     (case validateLinkRequest req of
        Some err \<Rightarrow> (Some err, w)
      | None \<Rightarrow>
          if \<not> isURL (ReqLink req) then
            (Some (InvalidQueryError ''URL must start with http:// or https://''), w)
          else
            (case create w \<lparr>ID = 0, Word = ReqWord req, Link = ReqLink req, User = userID,
                             CreatedAt = now\<rparr> of
               (Some err, w1) \<Rightarrow> (Some (Errorf ''failed to create shortcut'' err), w1)
             | (None, w1) \<Rightarrow> (None, w1)))"

text \<open>The service's \<^verbatim>\<open>GetAllKeywords\<close>: the repository's list, the URLs only.\<close>

definition GetAllKeywords :: "'w getAllKeywords \<Rightarrow> 'w \<Rightarrow> (error + KeywordInfo list) \<times> 'w" where
  "GetAllKeywords getAll w =
     (case getAll w of
        (Inl err, w1) \<Rightarrow> (Inl err, w1)
      | (Inr keywords, w1) \<Rightarrow> (Inr (filter (\<lambda>keyword. isURL (KeywordLink keyword)) keywords), w1))"

declare GetLink.simps [code]

section \<open>Recording the calls a run makes\<close>

text \<open>
  To speak about the calls \<^verbatim>\<open>GetLink\<close> makes to its repositories, a repository is wrapped
  so that it appends each call, with its result, to a log kept beside the state of the
  world.  (The mocks of \<^verbatim>\<open>link_test.go\<close> record the usage log's calls the same way.)
\<close>

datatype call =
    GetByWordCall string "error + Shortcut option"
  | CreateQueryCall int "error option"

definition traceGetByWord :: "'w getByWord \<Rightarrow> ('w \<times> call list) getByWord" where
  "traceGetByWord getByWord =
     (\<lambda>(w, log) word. case getByWord w word of
        (r, w1) \<Rightarrow> (r, (w1, log @ [GetByWordCall word r])))"

definition traceCreateQuery :: "'w createQuery \<Rightarrow> ('w \<times> call list) createQuery" where
  "traceCreateQuery createQuery =
     (\<lambda>(w, log) wordID. case createQuery w wordID of
        (r, w1) \<Rightarrow> (r, (w1, log @ [CreateQueryCall wordID r])))"

text \<open>A log in which every lookup that returned a shortcut is followed at once by one
  usage record for that shortcut's identifier, and no usage record stands elsewhere.\<close>

fun usageMatches :: "call list \<Rightarrow> bool" where
  "usageMatches [] = True"
| "usageMatches (GetByWordCall word (Inr (Some shortcut)) # CreateQueryCall wordID r # cs) =
     (wordID = ID shortcut \<and> usageMatches cs)"
| "usageMatches (GetByWordCall word (Inr (Some shortcut)) # cs) = False"
| "usageMatches (GetByWordCall word r # cs) = usageMatches cs"
| "usageMatches (CreateQueryCall wordID r # cs) = False"

text \<open>A keyword store and a usage log that share no state: the world is a pair, the
  store's methods see its first component and the log's its second.\<close>

definition onStore :: "'s getByWord \<Rightarrow> ('s \<times> 'q) getByWord" where
  "onStore getByWord = (\<lambda>(s, q) word. case getByWord s word of (r, s1) \<Rightarrow> (r, (s1, q)))"

definition onLog :: "'q createQuery \<Rightarrow> ('s \<times> 'q) createQuery" where
  "onLog createQuery = (\<lambda>(s, q) wordID. case createQuery q wordID of (r, q1) \<Rightarrow> (r, (s, q1)))"

text \<open>
  A chain of aliases in a table: the lookup of the word returns the first shortcut of the
  list, whose link is looked up next and returns the second, and so on; the links of all
  but the last are no URLs, and the link of the last is one.
\<close>

fun aliasChain :: "Shortcut list \<Rightarrow> string \<Rightarrow> Shortcut list \<Rightarrow> bool" where
  "aliasChain rows word [] = False"
| "aliasChain rows word [shortcut] =
     (ShortcutRepository_GetByWord rows (TrimSpace word) = Some shortcut \<and> isURL (Link shortcut))"
| "aliasChain rows word (shortcut # following # later) =
     (ShortcutRepository_GetByWord rows (TrimSpace word) = Some shortcut \<and> \<not> isURL (Link shortcut)
      \<and> aliasChain rows (Link shortcut) (following # later))"

text \<open>The shortcuts that the lookups of a log returned, and the identifiers that the
  usage log was called with, in order.\<close>

fun hits :: "call list \<Rightarrow> Shortcut list" where
  "hits [] = []"
| "hits (GetByWordCall word (Inr (Some shortcut)) # cs) = shortcut # hits cs"
| "hits (c # cs) = hits cs"

fun recorded :: "call list \<Rightarrow> int list" where
  "recorded [] = []"
| "recorded (CreateQueryCall wordID r # cs) = wordID # recorded cs"
| "recorded (c # cs) = recorded cs"

section \<open>Notions used in the statements and proofs\<close>

text \<open>A UTF-8 continuation byte (\<^verbatim>\<open>10xxxxxx\<close>).\<close>

definition isCont :: "char \<Rightarrow> bool" where
  "isCont c = (128 \<le> (of_char c :: nat) \<and> (of_char c :: nat) < 192)"

text \<open>No white-space rune stands at any offset of the string.\<close>

definition nospace :: "string \<Rightarrow> bool" where
  "nospace f = list_all (\<lambda>i. spaceLen (drop i f) = 0) [0..<length f]"


text \<open>Each head of the list has the words of the one before it but the last.\<close>

fun dropsLastWord :: "string list \<Rightarrow> bool" where
  "dropsLastWord [] = True"
| "dropsLastWord [h] = True"
| "dropsLastWord (h # h' # hs) = (Fields h = Fields h' @ [last (Fields h)] \<and> dropsLastWord (h' # hs))"

text \<open>A sequence of later \<^verbatim>\<open>Create\<close> calls, each with its instant.\<close>

definition createAll :: "(nat \<times> Shortcut) list \<Rightarrow> Shortcut list \<Rightarrow> Shortcut list" where
  "createAll later rows = fold (\<lambda>(now, shortcut) rs. ShortcutRepository_Create now rs shortcut) later rows"

text \<open>
  The lookup of the head \<open>h\<close> in the state \<open>w\<close> is retried: it returns no shortcut and the
  head has a space in it.  \<open>retried\<close> looks a list of heads up one after the other, each
  in the state the lookup before it left, and gives the last state if every one of these
  lookups is retried.
\<close>

definition retries :: "'w getByWord \<Rightarrow> 'w \<Rightarrow> string \<Rightarrow> bool" where
  "retries getByWord w h = (fst (getByWord w h) = Inr None \<and> Contains h '' '')"

fun retried :: "'w getByWord \<Rightarrow> 'w \<Rightarrow> string list \<Rightarrow> 'w option" where
  "retried getByWord w [] = Some w"
| "retried getByWord w (h # hs) =
     (if retries getByWord w h then retried getByWord (snd (getByWord w h)) hs else None)"


section \<open>The checks of a new shortcut\<close>

text \<open>
  The reasons for which the specification's \<^verbatim>\<open>ValidateAndStore\<close> rejects a request, in the
  order of its checks.
\<close>

datatype reason = EmptyWord | TrailingSlash | EmptyLink | SelfReferential | LinkNotURL

text \<open>
  The first failed check as the specification words it: the word empty after trim, the
  word ending in a slash, the target empty after trim, the target equal to the word, the
  target no URL.  Only the two tests for emptiness are worded "after trim"; the others
  are read here on the strings of the request.
\<close>

definition claimedFailure :: "LinkRequest \<Rightarrow> reason option" where
  "claimedFailure req =
     (if TrimSpace (ReqWord req) = [] then Some EmptyWord
      else if HasSuffix (ReqWord req) ''/'' then Some TrailingSlash
      else if TrimSpace (ReqLink req) = [] then Some EmptyLink
      else if ReqLink req = ReqWord req then Some SelfReferential
      else if \<not> isURL (ReqLink req) then Some LinkNotURL
      else None)"

text \<open>The other reading of the specification's list: every check on the trimmed strings.\<close>

definition claimedFailureTrimmed :: "LinkRequest \<Rightarrow> reason option" where
  "claimedFailureTrimmed req =
     (let newWord = TrimSpace (ReqWord req); newTarget = TrimSpace (ReqLink req) in
      if newWord = [] then Some EmptyWord
      else if HasSuffix newWord ''/'' then Some TrailingSlash
      else if newTarget = [] then Some EmptyLink
      else if newTarget = newWord then Some SelfReferential
      else if \<not> isURL newTarget then Some LinkNotURL
      else None)"

text \<open>
  The first failed check with the string stated for every check: the first four read the
  trimmed word and the trimmed target, the last one the target as it was given.
\<close>

definition firstFailure :: "LinkRequest \<Rightarrow> reason option" where
  "firstFailure req =
     (if TrimSpace (ReqWord req) = [] then Some EmptyWord
      else if HasSuffix (TrimSpace (ReqWord req)) ''/'' then Some TrailingSlash
      else if TrimSpace (ReqLink req) = [] then Some EmptyLink
      else if TrimSpace (ReqLink req) = TrimSpace (ReqWord req) then Some SelfReferential
      else if \<not> isURL (ReqLink req) then Some LinkNotURL
      else None)"

text \<open>The message of the \<^verbatim>\<open>InvalidQueryError\<close> that the service returns for each reason.\<close>

fun reasonMessage :: "reason \<Rightarrow> string" where
  "reasonMessage EmptyWord = ''No word given, cannot setup a golink''"
| "reasonMessage TrailingSlash = ''Words ending in a '/' are not supported''"
| "reasonMessage EmptyLink = ''No link given, cannot setup a golink''"
| "reasonMessage SelfReferential = ''Word points to itself, will cause a recursive lookup''"
| "reasonMessage LinkNotURL = ''URL must start with http:// or https://''"

section \<open>Example stores\<close>

text \<open>The store of \<^verbatim>\<open>TestLinkService_GetLink\<close>'s substitution cases: one keyword with a
  pattern.\<close>

definition searchRow :: Shortcut where
  "searchRow = \<lparr>ID = 1, Word = ''search'', Link = ''https://google.com/search?q={*}'',
                  User = ''testuser'', CreatedAt = 0\<rparr>"

definition searchDB :: DB where
  "searchDB = \<lparr>linktable = [searchRow], queries = []\<rparr>"

text \<open>A store with one keyword, for a query whose words a tab separates; the empty
  database; and a keyword store without a shortcut (the mock of the tests with an empty
  map).\<close>

definition tabRow :: Shortcut where
  "tabRow = \<lparr>ID = 1, Word = ''a'', Link = ''https://a.example.com'', User = ''testuser'',
               CreatedAt = 0\<rparr>"

definition tabDB :: DB where
  "tabDB = \<lparr>linktable = [tabRow], queries = []\<rparr>"

definition emptyDB :: DB where
  "emptyDB = \<lparr>linktable = [], queries = []\<rparr>"

definition noShortcuts :: "DB getByWord" where
  "noShortcuts db word = (Inr None, db)"

text \<open>The stores of the alias cases: the chain of the tests, and one with a longer keyword
  that starts with the alias's target.\<close>

definition aliasRow :: Shortcut where
  "aliasRow = \<lparr>ID = 1, Word = ''d'', Link = ''docs'', User = ''testuser'', CreatedAt = 0\<rparr>"

definition docsRow :: Shortcut where
  "docsRow = \<lparr>ID = 2, Word = ''docs'', Link = ''https://docs.example.com'',
                User = ''testuser'', CreatedAt = 0\<rparr>"

definition chainDB :: DB where
  "chainDB = \<lparr>linktable = [aliasRow, docsRow], queries = []\<rparr>"

definition longerDB :: DB where
  "longerDB = \<lparr>linktable =
      [aliasRow,
       \<lparr>ID = 2, Word = ''docs x'', Link = ''https://other.example.com'', User = ''testuser'',
          CreatedAt = 0\<rparr>,
       \<lparr>ID = 3, Word = ''docs'', Link = ''https://docs.example.com/{*}'', User = ''testuser'',
          CreatedAt = 0\<rparr>],
     queries = []\<rparr>"








text \<open>A table with a history: \<^verbatim>\<open>a\<close> and \<^verbatim>\<open>b\<close> end on a URL, \<^verbatim>\<open>c\<close> on an alias.\<close>

definition historyRows :: "Shortcut list" where
  "historyRows =
     [\<lparr>ID = 1, Word = ''a'', Link = ''https://a.example.com/1'', User = ''u'', CreatedAt = 1\<rparr>,
      \<lparr>ID = 2, Word = ''b'', Link = ''a'', User = ''u'', CreatedAt = 2\<rparr>,
      \<lparr>ID = 3, Word = ''a'', Link = ''https://a.example.com/2'', User = ''u'', CreatedAt = 3\<rparr>,
      \<lparr>ID = 4, Word = ''c'', Link = ''https://c.example.com'', User = ''u'', CreatedAt = 4\<rparr>,
      \<lparr>ID = 5, Word = ''b'', Link = ''https://b.example.com'', User = ''u'', CreatedAt = 5\<rparr>,
      \<lparr>ID = 6, Word = ''c'', Link = ''a'', User = ''u'', CreatedAt = 6\<rparr>]"

definition historyDB :: DB where
  "historyDB = \<lparr>linktable = historyRows, queries = []\<rparr>"

text \<open>A usage log that always fails, and one that records the identifiers it is given.\<close>

definition failingLog :: "int list createQuery" where
  "failingLog q wordID = (Some (StorageError ''database is closed''), q)"

definition recordingLog :: "int list createQuery" where
  "recordingLog q wordID = (None, q @ [wordID])"

section \<open>Properties\<close>

text \<open>The equations of the functions defined by general recursion are unfolded by hand.\<close>

declare trimLeft.simps [simp del]
declare trimRight.simps [simp del]
declare splitFields.simps [simp del]
declare ReplaceAll.simps [simp del]


subsection \<open>White-space encodings\<close>

lemma enc_shape:
  "e \<in> set spaceEncodings \<Longrightarrow>
     e \<noteq> [] \<and> \<not> isCont (hd e) \<and> (\<forall>c \<in> set (tl e). isCont c) \<and>
     length e = (if (of_char (hd e) :: nat) < 128 then 1 else if hd e = CHR 0xC2 then 2 else 3)"
  unfolding spaceEncodings_def isCont_def by (elim disjE | simp)+

lemma space_enc: "[CHR '' ''] \<in> set spaceEncodings"
  by (simp add: spaceEncodings_def)

lemma HasPrefix_append: "HasPrefix s e \<longleftrightarrow> (\<exists>v. s = e @ v)"
  unfolding HasPrefix_def
  by (metis append_eq_conv_conj append_take_drop_id length_append le_add1)

lemma HasSuffix_append: "HasSuffix s e \<longleftrightarrow> (\<exists>u. s = u @ e)"
  unfolding HasSuffix_def
  by (metis append_eq_conv_conj append_take_drop_id length_append le_add2 diff_add_inverse2)

lemma spaceLen_pos_iff: "0 < spaceLen s \<longleftrightarrow> (\<exists>e \<in> set spaceEncodings. HasPrefix s e)"
  unfolding spaceLen_def
  by (auto simp: find_None_iff find_Some_iff enc_shape split: option.splits)

lemma lastSpaceLen_pos_iff: "0 < lastSpaceLen s \<longleftrightarrow> (\<exists>e \<in> set spaceEncodings. HasSuffix s e)"
  unfolding lastSpaceLen_def
  by (auto simp: find_None_iff find_Some_iff enc_shape split: option.splits)

lemma find_SomeD: "find P xs = Some x \<Longrightarrow> x \<in> set xs \<and> P x"
  by (auto simp: find_Some_iff)

lemma spaceLen_enc:
  assumes "e \<in> set spaceEncodings"
  shows "spaceLen (e @ v) = length e"
proof -
  have "HasPrefix (e @ v) e" by (simp add: HasPrefix_append)
  then obtain e' where f: "find (HasPrefix (e @ v)) spaceEncodings = Some e'"
    using assms by (cases "find (HasPrefix (e @ v)) spaceEncodings") (auto simp: find_None_iff)
  then have e': "e' \<in> set spaceEncodings" "HasPrefix (e @ v) e'"
    using find_SomeD by fastforce+
  then obtain v' where v': "e @ v = e' @ v'" by (auto simp: HasPrefix_append)
  have "e \<noteq> []" "e' \<noteq> []" using assms e' enc_shape by auto
  with v' have "hd e = hd e'" by (metis hd_append2)
  then have "length e = length e'" using enc_shape[OF assms] enc_shape[OF e'(1)] by simp
  then show ?thesis using f by (simp add: spaceLen_def)
qed

lemma spaceLen_le: "spaceLen s \<le> length s"
proof (cases "0 < spaceLen s")
  case True
  then obtain e v where "e \<in> set spaceEncodings" "s = e @ v"
    by (auto simp: spaceLen_pos_iff HasPrefix_append)
  then show ?thesis by (simp add: spaceLen_enc)
qed simp

lemma spaceLen_take: "0 < spaceLen s \<Longrightarrow> take (spaceLen s) s \<in> set spaceEncodings"
  by (auto simp: spaceLen_pos_iff HasPrefix_append spaceLen_enc)

lemma spaceLen_prefix: "0 < spaceLen u \<Longrightarrow> spaceLen (u @ v) = spaceLen u"
proof -
  assume "0 < spaceLen u"
  then obtain e x where "e \<in> set spaceEncodings" "u = e @ x"
    by (auto simp: spaceLen_pos_iff HasPrefix_append)
  then show ?thesis using spaceLen_enc[of e "x @ v"] spaceLen_enc[of e x] by simp
qed

lemma spaceLen_boundary:
  assumes "u \<noteq> []" and "v = [] \<or> \<not> isCont (hd v)"
  shows "spaceLen (u @ v) = spaceLen u"
proof (cases "0 < spaceLen u")
  case True then show ?thesis by (rule spaceLen_prefix)
next
  case False
  have "\<not> 0 < spaceLen (u @ v)"
  proof
    assume "0 < spaceLen (u @ v)"
    then obtain e w where e: "e \<in> set spaceEncodings" "u @ v = e @ w"
      by (auto simp: spaceLen_pos_iff HasPrefix_append)
    show False
    proof (cases "length e \<le> length u")
      case True
      with e(2) have "HasPrefix u e"
        by (auto simp: HasPrefix_def append_eq_append_conv_if split: if_splits)
      with e(1) False show False by (auto simp: spaceLen_pos_iff)
    next
      case False
      with e(2) obtain x where x: "e = u @ x" "x \<noteq> []" "v = x @ w"
        by (auto simp: append_eq_append_conv_if split: if_splits) (metis append_take_drop_id drop_eq_Nil2 linorder_not_le)
      then have "hd v \<in> set (tl e)" using assms(1) by (cases u; cases x) auto
      moreover have "v \<noteq> []" using x by simp
      ultimately show False using assms(2) enc_shape[OF e(1)] by auto
    qed
  qed
  with False show ?thesis by simp
qed

lemma enc_suffix_eq:
  assumes a: "a \<in> set spaceEncodings" and b: "b \<in> set spaceEncodings"
    and eq: "x @ a = y @ b"
  shows "\<not> length a < length b"
proof
  assume less: "length a < length b"
  from eq obtain us where "x = y @ us \<and> us @ a = b \<or> x @ us = y \<and> a = us @ b"
    unfolding append_eq_append_conv2 by blast
  then have "b = us @ a" using less by auto
  moreover from this less have "us \<noteq> []" by auto
  moreover have "a \<noteq> []" using enc_shape[OF a] by blast
  ultimately have "hd a \<in> set (tl b)" by (cases us; cases a) simp_all
  moreover have "\<not> isCont (hd a)" using enc_shape[OF a] by blast
  moreover have "\<forall>c \<in> set (tl b). isCont c" using enc_shape[OF b] by blast
  ultimately show False by blast
qed

lemma lastSpaceLen_enc:
  assumes "e \<in> set spaceEncodings"
  shows "lastSpaceLen (u @ e) = length e"
proof -
  have "HasSuffix (u @ e) e" by (auto simp: HasSuffix_append)
  then obtain e' where f: "find (HasSuffix (u @ e)) spaceEncodings = Some e'"
    using assms by (cases "find (HasSuffix (u @ e)) spaceEncodings") (auto simp: find_None_iff)
  then have e': "e' \<in> set spaceEncodings" "HasSuffix (u @ e) e'"
    using find_SomeD by fastforce+
  then obtain u' where u': "u @ e = u' @ e'" by (auto simp: HasSuffix_append)
  have "length e = length e'"
    using enc_suffix_eq[OF assms e'(1) u'] enc_suffix_eq[OF e'(1) assms u'[symmetric]]
    by linarith
  then show ?thesis using f by (simp add: lastSpaceLen_def)
qed

lemma lastSpaceLen_le: "lastSpaceLen s \<le> length s"
proof (cases "0 < lastSpaceLen s")
  case True
  then obtain e u where "e \<in> set spaceEncodings" "s = u @ e"
    by (auto simp: lastSpaceLen_pos_iff HasSuffix_append)
  then show ?thesis by (simp add: lastSpaceLen_enc)
qed simp

lemma lastSpaceLen_suffix: "0 < lastSpaceLen v \<Longrightarrow> lastSpaceLen (u @ v) = lastSpaceLen v"
proof -
  assume "0 < lastSpaceLen v"
  then obtain e x where "e \<in> set spaceEncodings" "v = x @ e"
    by (auto simp: lastSpaceLen_pos_iff HasSuffix_append)
  then show ?thesis using lastSpaceLen_enc[of e "u @ x"] lastSpaceLen_enc[of e x] by simp
qed

lemma spaceLen_Nil [simp]: "spaceLen [] = 0"
  using spaceLen_le[of "[]"] by simp

lemma lastSpaceLen_Nil [simp]: "lastSpaceLen [] = 0"
  using lastSpaceLen_le[of "[]"] by simp

lemma spaceLen_space [simp]: "spaceLen (CHR '' '' # t) = 1"
  using spaceLen_enc[OF space_enc, of t] by simp

lemma not_isCont_space [simp]: "\<not> isCont (CHR '' '')"
  by (simp add: isCont_def)

subsection \<open>Trimming\<close>

lemma spaceLen_trimLeft [simp]: "spaceLen (trimLeft s) = 0"
  by (induction s rule: trimLeft.induct) (subst trimLeft.simps, simp)

lemma lastSpaceLen_trimRight [simp]: "lastSpaceLen (trimRight s) = 0"
  by (induction s rule: trimRight.induct) (subst trimRight.simps, simp)

lemma spaceLen_take_zero: "spaceLen s = 0 \<Longrightarrow> spaceLen (take k s) = 0"
  using spaceLen_prefix[of "take k s" "drop k s"] by (cases "spaceLen (take k s)") auto

lemma spaceLen_trimRight: "spaceLen s = 0 \<Longrightarrow> spaceLen (trimRight s) = 0"
proof (induction s rule: trimRight.induct)
  case (1 s)
  show ?case
  proof (cases "0 < lastSpaceLen s")
    case True
    with 1 show ?thesis by (subst trimRight.simps) (simp add: spaceLen_take_zero)
  next
    case False
    with 1 show ?thesis by (subst trimRight.simps) simp
  qed
qed

lemma trimmed_TrimSpace: "spaceLen (TrimSpace s) = 0 \<and> lastSpaceLen (TrimSpace s) = 0"
  by (simp add: TrimSpace_def spaceLen_trimRight)

lemma TrimSpace_id: "spaceLen s = 0 \<Longrightarrow> lastSpaceLen s = 0 \<Longrightarrow> TrimSpace s = s"
  by (simp add: TrimSpace_def trimLeft.simps[of s] trimRight.simps[of s])

lemma TrimSpace_id_iff: "TrimSpace s = s \<longleftrightarrow> spaceLen s = 0 \<and> lastSpaceLen s = 0"
  using trimmed_TrimSpace[of s] TrimSpace_id[of s] by auto

lemma TrimSpace_idem [simp]: "TrimSpace (TrimSpace s) = TrimSpace s"
  by (simp add: TrimSpace_id trimmed_TrimSpace)

lemma TrimSpace_Nil [simp]: "TrimSpace [] = []"
  by (simp add: TrimSpace_id)

subsection \<open>Splitting into fields\<close>

lemma nospace_iff: "nospace f \<longleftrightarrow> (\<forall>i < length f. spaceLen (drop i f) = 0)"
  by (auto simp: nospace_def list_all_iff)

lemma nospace_Nil [simp]: "nospace []"
  by (simp add: nospace_iff)

lemma nospace_Cons: "nospace (c # f) \<longleftrightarrow> spaceLen (c # f) = 0 \<and> nospace f"
proof -
  have "(\<forall>i < Suc (length f). spaceLen (drop i (c # f)) = 0) \<longleftrightarrow>
        spaceLen (c # f) = 0 \<and> (\<forall>i < length f. spaceLen (drop i f) = 0)"
    by (auto simp: less_Suc_eq_0_disj)
  then show ?thesis by (simp add: nospace_iff)
qed

lemma splitFields_cur_nonempty: "cur \<noteq> [] \<Longrightarrow> splitFields cur s \<noteq> []"
  by (induction cur s rule: splitFields.induct) (subst splitFields.simps, simp)

lemma splitFields_nospace:
  "nospace f \<Longrightarrow> splitFields cur f = (if cur @ f = [] then [] else [cur @ f])"
proof (induction f arbitrary: cur)
  case Nil
  then show ?case by (subst splitFields.simps) simp
next
  case (Cons c f)
  then show ?case by (subst splitFields.simps) (simp add: nospace_Cons)
qed

lemma splitFields_at_space:
  "splitFields cur (a @ CHR '' '' # b) = splitFields cur a @ splitFields [] b"
proof (induction "length a" arbitrary: a cur rule: less_induct)
  case less
  show ?case
  proof (cases "a = []")
    case True
    then show ?thesis
      by (simp add: splitFields.simps[of cur "CHR '' '' # b"] splitFields.simps[of cur "[]"])
  next
    case False
    have b: "spaceLen (a @ CHR '' '' # b) = spaceLen a"
      by (rule spaceLen_boundary) (simp_all add: False)
    show ?thesis
    proof (cases "0 < spaceLen a")
      case True
      have le: "spaceLen a \<le> length a" by (rule spaceLen_le)
      have "splitFields [] (drop (spaceLen a) a @ CHR '' '' # b) =
            splitFields [] (drop (spaceLen a) a) @ splitFields [] b"
        by (rule less) (use True False in simp)
      then show ?thesis
        using b True le False
        by (simp add: splitFields.simps[of cur "a @ CHR '' '' # b"] splitFields.simps[of cur a])
    next
      case F: False
      have "splitFields (cur @ [hd a]) (tl a @ CHR '' '' # b) =
            splitFields (cur @ [hd a]) (tl a) @ splitFields [] b"
        by (rule less) (simp add: False)
      then show ?thesis
        using b F False
        by (simp add: splitFields.simps[of cur "a @ CHR '' '' # b"] splitFields.simps[of cur a])
    qed
  qed
qed

lemma Fields_at_space: "Fields (a @ CHR '' '' # b) = Fields a @ Fields b"
  by (simp add: Fields_def splitFields_at_space)

lemma splitFields_allspace:
  "splitFields [] b = [] \<Longrightarrow> b = [] \<or> 0 < lastSpaceLen b"
proof (induction "length b" arbitrary: b rule: less_induct)
  case less
  show ?case
  proof (cases "b = []")
    case False
    show ?thesis
    proof (cases "0 < spaceLen b")
      case True
      have le: "spaceLen b \<le> length b" by (rule spaceLen_le)
      from less.prems True False have r: "splitFields [] (drop (spaceLen b) b) = []"
        by (simp add: splitFields.simps[of "[]" b])
      have "drop (spaceLen b) b = [] \<or> 0 < lastSpaceLen (drop (spaceLen b) b)"
        by (rule less(1)) (use True False r in simp_all)
      then show ?thesis
      proof
        assume "drop (spaceLen b) b = []"
        then have "b = take (spaceLen b) b" by (metis append_Nil2 append_take_drop_id)
        then have "b \<in> set spaceEncodings" using spaceLen_take[OF True] by simp
        then have "lastSpaceLen ([] @ b) = length b" by (rule lastSpaceLen_enc)
        then show ?thesis using False by simp
      next
        assume "0 < lastSpaceLen (drop (spaceLen b) b)"
        then have "0 < lastSpaceLen (take (spaceLen b) b @ drop (spaceLen b) b)"
          by (simp only: lastSpaceLen_suffix)
        then show ?thesis by simp
      qed
    next
      case F: False
      from less.prems F False have "splitFields [hd b] (tl b) = []"
        by (simp add: splitFields.simps[of "[]" b])
      then show ?thesis using splitFields_cur_nonempty[of "[hd b]" "tl b"] by simp
    qed
  qed simp
qed

lemma Contains_space: "Contains s '' '' \<longleftrightarrow> CHR '' '' \<in> set s"
  by (induction s) (auto simp: HasPrefix_def)

lemma Fields_trimmed_space:
  assumes "TrimSpace h = h" and "Contains h '' ''"
  shows "2 \<le> length (Fields h)"
proof -
  from assms(1) have t: "spaceLen h = 0" "lastSpaceLen h = 0" by (simp_all add: TrimSpace_id_iff)
  from assms(2) obtain a b where h: "h = a @ CHR '' '' # b"
    by (auto simp: Contains_space dest: split_list)
  have "a \<noteq> []" using t(1) h by auto
  moreover have "spaceLen (a @ CHR '' '' # b) = spaceLen a"
    by (rule spaceLen_boundary) (simp_all add: \<open>a \<noteq> []\<close>)
  ultimately have "splitFields [hd a] (tl a) = Fields a" using t(1) h
    by (simp add: Fields_def splitFields.simps[of "[]" a])
  then have fa: "Fields a \<noteq> []" using splitFields_cur_nonempty[of "[hd a]" "tl a"] by simp
  have fb: "Fields b \<noteq> []"
  proof
    assume "Fields b = []"
    then have "b = [] \<or> 0 < lastSpaceLen b" by (simp add: Fields_def splitFields_allspace)
    then have "0 < lastSpaceLen h"
    proof
      assume "b = []"
      then show ?thesis using h lastSpaceLen_enc[OF space_enc, of a] by simp
    next
      assume "0 < lastSpaceLen b"
      then show ?thesis using h lastSpaceLen_suffix[of b "a @ '' ''"] by simp
    qed
    with t(2) show False by simp
  qed
  have "length (Fields h) = length (Fields a) + length (Fields b)"
    by (simp add: h Fields_at_space)
  with fa fb show ?thesis by (cases "Fields a"; cases "Fields b") auto
qed


lemma spaceLen_append_zero: "spaceLen (u @ v) = 0 \<Longrightarrow> spaceLen u = 0"
  using spaceLen_prefix[of u v] by (cases "spaceLen u") auto

lemma splitFields_Nil [simp]: "splitFields cur [] = (if cur = [] then [] else [cur])"
  by (simp add: splitFields.simps[of cur "[]"])

lemma splitFields_space:
  "0 < spaceLen s \<Longrightarrow>
     splitFields cur s = (if cur = [] then [] else [cur]) @ splitFields [] (drop (spaceLen s) s)"
  by (cases "s = []") (simp_all add: splitFields.simps[of cur s])

lemma splitFields_byte:
  "s \<noteq> [] \<Longrightarrow> spaceLen s = 0 \<Longrightarrow> splitFields cur s = splitFields (cur @ [hd s]) (tl s)"
  by (simp add: splitFields.simps[of cur s])

lemma splitFields_fields:
  assumes "\<forall>i < length cur. spaceLen (drop i cur @ s) = 0"
  shows "\<forall>f \<in> set (splitFields cur s). f \<noteq> [] \<and> nospace f"
  using assms
proof (induction cur s rule: splitFields.induct)
  case (1 cur s)
  have cur: "nospace cur"
    unfolding nospace_iff using "1.prems" spaceLen_append_zero by blast
  show ?case
  proof (cases "s = []")
    case True
    then show ?thesis using cur by simp
  next
    case False
    show ?thesis
    proof (cases "0 < spaceLen s")
      case True
      have "\<forall>f \<in> set (splitFields [] (drop (spaceLen s) s)). f \<noteq> [] \<and> nospace f"
        by (rule "1.IH"(1)) (use False True in simp_all)
      then show ?thesis using cur False True by (simp add: splitFields_space)
    next
      case F: False
      have "\<forall>i < length (cur @ [hd s]). spaceLen (drop i (cur @ [hd s]) @ tl s) = 0"
      proof (intro allI impI)
        fix i assume "i < length (cur @ [hd s])"
        then consider "i < length cur" | "i = length cur" by fastforce
        then show "spaceLen (drop i (cur @ [hd s]) @ tl s) = 0"
        proof cases
          case 1
          then show ?thesis using "1.prems" False by simp
        next
          case 2
          then show ?thesis using F False by simp
        qed
      qed
      then have "\<forall>f \<in> set (splitFields (cur @ [hd s]) (tl s)). f \<noteq> [] \<and> nospace f"
        using "1.IH"(2) False F by blast
      then show ?thesis using False F by (simp add: splitFields_byte)
    qed
  qed
qed

lemma Fields_fields: "f \<in> set (Fields s) \<Longrightarrow> f \<noteq> [] \<and> nospace f"
  using splitFields_fields[of "[]" s] by (simp add: Fields_def)

lemma splitFields_field_space:
  "nospace f \<Longrightarrow> splitFields cur (f @ CHR '' '' # t) =
     (if cur @ f = [] then [] else [cur @ f]) @ splitFields [] t"
  by (simp add: splitFields_at_space splitFields_nospace splitFields.simps[of "[]" "[]"])

lemma Fields_Join:
  "\<forall>f \<in> set fs. f \<noteq> [] \<and> nospace f \<Longrightarrow> Fields (Join fs '' '') = fs"
proof (induction fs "'' ''" rule: Join.induct)
  case 1
  then show ?case by (simp add: Fields_def splitFields.simps[of "[]" "[]"])
next
  case (2 a)
  then show ?case by (simp add: Fields_def splitFields_nospace)
next
  case (3 a b rest)
  then show ?case by (simp add: Fields_at_space) (simp add: Fields_def splitFields_nospace)
qed

lemma Join_Cons: "fs \<noteq> [] \<Longrightarrow> Join (f # fs) sep = f @ sep @ Join fs sep"
  by (cases fs) simp_all

lemma Join_snoc: "fs \<noteq> [] \<Longrightarrow> Join (fs @ [f]) sep = Join fs sep @ sep @ f"
  by (induction fs sep rule: Join.induct) simp_all

lemma nospace_spaceLen: "nospace f \<Longrightarrow> spaceLen f = 0"
  by (cases f) (simp_all add: nospace_Cons)

lemma nospace_lastSpaceLen:
  assumes "nospace f" and "f \<noteq> []" and "p = [] \<or> last p = CHR '' ''"
  shows "lastSpaceLen (p @ f) = 0"
proof (rule ccontr)
  assume "lastSpaceLen (p @ f) \<noteq> 0"
  then obtain e u where e: "e \<in> set spaceEncodings" "p @ f = u @ e"
    by (auto simp: lastSpaceLen_pos_iff HasSuffix_append)
  have ne: "e \<noteq> []" using enc_shape[OF e(1)] by blast
  from e(2) obtain us where "p = u @ us \<and> us @ f = e \<or> p @ us = u \<and> f = us @ e"
    unfolding append_eq_append_conv2 by blast
  then show False
  proof
    assume a: "p @ us = u \<and> f = us @ e"
    then have "length us < length f" using ne by simp
    moreover have "spaceLen (drop (length us) f) = length e"
      using a spaceLen_enc[OF e(1), of "[]"] by simp
    ultimately show False using assms(1) ne by (auto simp: nospace_iff)
  next
    assume a: "p = u @ us \<and> us @ f = e"
    show False
    proof (cases "us = []")
      case True
      then have "spaceLen (f @ []) = length e" using a spaceLen_enc[OF e(1), of "[]"] by simp
      then show False using nospace_spaceLen[OF assms(1)] ne by simp
    next
      case False
      then have "p \<noteq> []" using a by auto
      then have l: "last us = CHR '' ''" using assms(3) a False by auto
      have "e = butlast us @ CHR '' '' # f" using a l False
        by (metis append.assoc append_Cons append_Nil append_butlast_last_id)
      then show False
      proof (cases "butlast us")
        case Nil
        assume "e = butlast us @ CHR '' '' # f"
        then have "e = CHR '' '' # f" using Nil by simp
        then have "length e = 1" using enc_shape[OF e(1)] by simp
        then show False using \<open>e = CHR '' '' # f\<close> assms(2) by simp
      next
        case (Cons c cs)
        assume "e = butlast us @ CHR '' '' # f"
        then have "CHR '' '' \<in> set (tl e)" using Cons by simp
        then show False using enc_shape[OF e(1)] by auto
      qed
    qed
  qed
qed

lemma TrimSpace_Join:
  assumes "\<forall>f \<in> set fs. f \<noteq> [] \<and> nospace f"
  shows "TrimSpace (Join fs '' '') = Join fs '' ''"
proof (cases fs rule: rev_cases)
  case Nil
  then show ?thesis by simp
next
  case (snoc gs f)
  have f: "f \<noteq> []" "nospace f" using assms snoc by auto
  have first: "spaceLen (Join fs '' '') = 0"
  proof (cases fs)
    case Nil then show ?thesis by simp
  next
    case (Cons a rest)
    then have a: "a \<noteq> []" "nospace a" using assms by auto
    show ?thesis
    proof (cases rest)
      case Nil then show ?thesis using Cons a nospace_spaceLen by simp
    next
      case (Cons b r)
      have "spaceLen (a @ CHR '' '' # Join rest '' '') = spaceLen a"
        by (rule spaceLen_boundary) (use a in simp_all)
      then show ?thesis using \<open>fs = a # rest\<close> Cons a nospace_spaceLen by simp
    qed
  qed
  have lastz: "lastSpaceLen (Join fs '' '') = 0"
  proof (cases "gs = []")
    case True
    then show ?thesis using snoc nospace_lastSpaceLen[OF f(2) f(1), of "[]"] by simp
  next
    case False
    then have "Join fs '' '' = (Join gs '' '' @ '' '') @ f" using snoc by (simp add: Join_snoc)
    then show ?thesis using nospace_lastSpaceLen[OF f(2) f(1), of "Join gs '' '' @ '' ''"] by simp
  qed
  show ?thesis using first lastz by (rule TrimSpace_id)
qed

lemma splitFields_drop_space:
  "0 < spaceLen s \<Longrightarrow> splitFields [] (drop (spaceLen s) s) = splitFields [] s"
  by (cases "s = []") (simp_all add: splitFields.simps[of "[]" s])

lemma Fields_trimLeft: "Fields (trimLeft s) = Fields s"
  unfolding Fields_def
proof (induction s rule: trimLeft.induct)
  case (1 s)
  then show ?case by (cases "0 < spaceLen s") (simp_all add: trimLeft.simps[of s] splitFields_drop_space)
qed

lemma enc_boundary:
  assumes "e \<in> set spaceEncodings"
  shows "e = [] \<or> \<not> isCont (hd e)"
  using enc_shape[OF assms] by blast

lemma splitFields_enc:
  assumes e: "e \<in> set spaceEncodings"
  shows "splitFields cur (a @ e) = splitFields cur a"
proof (induction "length a" arbitrary: a cur rule: less_induct)
  case less
  have len: "spaceLen (e @ []) = length e" by (rule spaceLen_enc[OF e])
  have ne: "e \<noteq> []" using enc_shape[OF e] by blast
  show ?case
  proof (cases "a = []")
    case True
    then show ?thesis using len ne
      by (simp add: splitFields.simps[of cur e] splitFields.simps[of cur "[]"] splitFields.simps[of "[]" "[]"])
  next
    case False
    have b: "spaceLen (a @ e) = spaceLen a"
      by (rule spaceLen_boundary) (use False enc_boundary[OF e] in simp_all)
    show ?thesis
    proof (cases "0 < spaceLen a")
      case True
      have le: "spaceLen a \<le> length a" by (rule spaceLen_le)
      have "splitFields [] (drop (spaceLen a) a @ e) = splitFields [] (drop (spaceLen a) a)"
        by (rule less) (use True False in simp)
      then show ?thesis using b True le False
        by (simp add: splitFields.simps[of cur "a @ e"] splitFields.simps[of cur a])
    next
      case F: False
      have "splitFields (cur @ [hd a]) (tl a @ e) = splitFields (cur @ [hd a]) (tl a)"
        by (rule less) (simp add: False)
      then show ?thesis using b F False
        by (simp add: splitFields.simps[of cur "a @ e"] splitFields.simps[of cur a])
    qed
  qed
qed

lemma lastSpaceLen_take: "0 < lastSpaceLen s \<Longrightarrow>
  \<exists>e \<in> set spaceEncodings. s = take (length s - lastSpaceLen s) s @ e"
proof -
  assume "0 < lastSpaceLen s"
  then obtain e u where e: "e \<in> set spaceEncodings" "s = u @ e"
    by (auto simp: lastSpaceLen_pos_iff HasSuffix_append)
  then have "lastSpaceLen s = length e" using lastSpaceLen_enc by simp
  then show ?thesis using e by auto
qed

lemma Fields_trimRight: "Fields (trimRight s) = Fields s"
  unfolding Fields_def
proof (induction s rule: trimRight.induct)
  case (1 s)
  show ?case
  proof (cases "0 < lastSpaceLen s")
    case True
    then obtain e where e: "e \<in> set spaceEncodings" "s = take (length s - lastSpaceLen s) s @ e"
      using lastSpaceLen_take by blast
    have "splitFields [] s = splitFields [] (take (length s - lastSpaceLen s) s)"
      using splitFields_enc[OF e(1), of "[]" "take (length s - lastSpaceLen s) s"] e(2) by simp
    then show ?thesis using 1 True by (simp add: trimRight.simps[of s])
  next
    case False
    then show ?thesis by (simp add: trimRight.simps[of s])
  qed
qed

lemma Fields_TrimSpace [simp]: "Fields (TrimSpace s) = Fields s"
  by (simp add: TrimSpace_def Fields_trimRight Fields_trimLeft)



subsection \<open>One step of GetLink\<close>

lemma GetLink_lookup_error:
  "getByWord w (TrimSpace word) = (Inl err, w1) \<Longrightarrow>
   GetLink getByWord createQuery w word searchTerm =
     Some (Inl (Errorf ''failed to get shortcut'' err), w1)"
  by (subst GetLink.simps) simp

lemma GetLink_miss_split:
  "getByWord w (TrimSpace word) = (Inr None, w1) \<Longrightarrow> Contains (TrimSpace word) '' '' \<Longrightarrow>
   GetLink getByWord createQuery w word searchTerm =
     GetLink getByWord createQuery w1 (fst (moveLastWord (TrimSpace word) searchTerm))
       (snd (moveLastWord (TrimSpace word) searchTerm))"
  by (subst GetLink.simps) (simp add: case_prod_beta Let_def)

lemma GetLink_miss_fail:
  "getByWord w (TrimSpace word) = (Inr None, w1) \<Longrightarrow> \<not> Contains (TrimSpace word) '' '' \<Longrightarrow>
   GetLink getByWord createQuery w word searchTerm =
     Some (Inl (InvalidQueryError
       (''Unable to find link for query '' @ TrimSpace word @ '' '' @ searchTerm)), w1)"
  by (subst GetLink.simps) simp

lemma GetLink_hit_alias:
  "getByWord w (TrimSpace word) = (Inr (Some shortcut), w1) \<Longrightarrow> \<not> isURL (Link shortcut) \<Longrightarrow>
   GetLink getByWord createQuery w word searchTerm =
     GetLink getByWord createQuery (snd (createQuery w1 (ID shortcut))) (Link shortcut) searchTerm"
  by (subst GetLink.simps) (simp add: case_prod_beta Let_def)

lemma GetLink_hit_url:
  "getByWord w (TrimSpace word) = (Inr (Some shortcut), w1) \<Longrightarrow> isURL (Link shortcut) \<Longrightarrow>
   GetLink getByWord createQuery w word searchTerm =
     Some (Inr (processResultLink (Link shortcut) searchTerm), snd (createQuery w1 (ID shortcut)))"
  by (subst GetLink.simps) (simp add: case_prod_beta Let_def)


subsection \<open>ReplaceAll\<close>

lemma ReplaceAll_Nil [simp]: "ReplaceAll [] old new = []"
  by (simp add: ReplaceAll.simps[of "[]"])

lemma ReplaceAll_absent: "\<not> Contains s old \<Longrightarrow> ReplaceAll s old new = s"
proof (induction s)
  case (Cons c s)
  then show ?case by (simp add: ReplaceAll.simps[of "c # s"])
qed simp

lemma HasPrefix_token:
  "HasPrefix s ''{*}'' \<longleftrightarrow> (\<exists>r. s = CHR ''{'' # CHR ''*'' # CHR ''}'' # r)"
  by (auto simp: HasPrefix_append)

lemma ReplaceAll_token:
  "\<not> Contains a ''{*}'' \<Longrightarrow>
   ReplaceAll (a @ ''{*}'' @ rest) ''{*}'' new = a @ new @ ReplaceAll rest ''{*}'' new"
proof (induction a)
  case Nil
  show ?case by (subst ReplaceAll.simps) (simp add: HasPrefix_def)
next
  case (Cons c a)
  then have no: "\<not> HasPrefix (c # a) ''{*}''" "\<not> Contains a ''{*}''" by simp_all
  have "\<not> HasPrefix (c # a @ ''{*}'' @ rest) ''{*}''"
  proof
    assume "HasPrefix (c # a @ ''{*}'' @ rest) ''{*}''"
    then obtain r where r: "c # a @ ''{*}'' @ rest = CHR ''{'' # CHR ''*'' # CHR ''}'' # r"
      unfolding HasPrefix_token by blast
    show False
    proof (cases a)
      case Nil
      with r show False by simp
    next
      case (Cons x a')
      show False
      proof (cases a')
        case Nil
        with r Cons show False by simp
      next
        case (Cons y a'')
        with r \<open>a = x # a'\<close> have "HasPrefix (c # a) ''{*}''" by (simp add: HasPrefix_token)
        with no show False by simp
      qed
    qed
  qed
  with Cons.IH[OF no(2)] show ?case
    by (subst ReplaceAll.simps) simp
qed

lemma ReplaceAll_Join:
  "\<forall>s \<in> set segs. \<not> Contains s ''{*}'' \<Longrightarrow>
   ReplaceAll (Join segs ''{*}'') ''{*}'' new = Join segs new"
proof (induction segs "''{*}''" rule: Join.induct)
  case (3 a b rest)
  then have "ReplaceAll (a @ ''{*}'' @ Join (b # rest) ''{*}'') ''{*}'' new =
             a @ new @ Join (b # rest) new"
    using ReplaceAll_token[of a "Join (b # rest) ''{*}''" new] by simp
  then show ?case by simp
qed (simp_all add: ReplaceAll_absent)

lemma QueryEscape_Nil [simp]: "QueryEscape [] = []"
  by (simp add: QueryEscape_def)

subsection \<open>Substitution into a URL target\<close>

text \<open>
  Claim C1.  When the head that is looked up has a shortcut whose link is a URL,
  \<^verbatim>\<open>GetLink\<close> returns the link with every occurrence of \<^verbatim>\<open>{*}\<close> replaced by one value,
  trimmed, and the usage log has been called once.  The value is the URL-encoding of the
  tail after \<^verbatim>\<open>processResultLink\<close> has deleted every \<^verbatim>\<open>{*}\<close> from the tail and trimmed it:
  for a trimmed tail without the token it is the URL-encoded tail, for the empty tail the
  empty string.  The last conjunct spells out "every occurrence": a link made of
  segments free of the token, joined by the token, becomes the same segments joined by
  the value.
\<close>

theorem Resolve_substitution:
  assumes "getByWord w (TrimSpace word) = (Inr (Some shortcut), w1)"
    and "isURL (Link shortcut)"
  shows "GetLink getByWord createQuery w word tail =
           Some (Inr (TrimSpace (ReplaceAll (Link shortcut) ''{*}''
                        (QueryEscape (TrimSpace (ReplaceAll tail ''{*}'' []))))),
                 snd (createQuery w1 (ID shortcut)))
         \<and> (\<not> Contains tail ''{*}'' \<and> TrimSpace tail = tail \<longrightarrow>
              QueryEscape (TrimSpace (ReplaceAll tail ''{*}'' [])) = QueryEscape tail)
         \<and> (tail = [] \<longrightarrow> QueryEscape (TrimSpace (ReplaceAll tail ''{*}'' [])) = [])
         \<and> (\<forall>segs v. (\<forall>s \<in> set segs. \<not> Contains s ''{*}'') \<longrightarrow>
              ReplaceAll (Join segs ''{*}'') ''{*}'' v = Join segs v)"
proof (intro conjI)
  show "GetLink getByWord createQuery w word tail =
           Some (Inr (TrimSpace (ReplaceAll (Link shortcut) ''{*}''
                        (QueryEscape (TrimSpace (ReplaceAll tail ''{*}'' []))))),
                 snd (createQuery w1 (ID shortcut)))"
    using assms by (simp add: GetLink_hit_url processResultLink_def)
  show "\<not> Contains tail ''{*}'' \<and> TrimSpace tail = tail \<longrightarrow>
          QueryEscape (TrimSpace (ReplaceAll tail ''{*}'' [])) = QueryEscape tail"
    by (simp add: ReplaceAll_absent)
  show "tail = [] \<longrightarrow> QueryEscape (TrimSpace (ReplaceAll tail ''{*}'' [])) = []"
    by simp
  show "\<forall>segs v. (\<forall>s \<in> set segs. \<not> Contains s ''{*}'') \<longrightarrow>
          ReplaceAll (Join segs ''{*}'') ''{*}'' v = Join segs v"
    by (simp add: ReplaceAll_Join)
qed


text \<open>The theorem at the store of the tests, for the query \<^verbatim>\<open>search\<close> with the tail
  \<^verbatim>\<open>hello world\<close>.\<close>

theorem Resolve_substitution_witness:
  "dbGetByWord searchDB (TrimSpace ''search'') = (Inr (Some searchRow), searchDB)
   \<and> isURL (Link searchRow)
   \<and> GetLink dbGetByWord (QueryRepository_Create 0) searchDB ''search'' ''hello world'' =
       Some (Inr ''https://google.com/search?q=hello+world'',
             searchDB\<lparr>queries := [\<lparr>QueryID = 1, WordID = 1, QueryCreatedAt = 0\<rparr>]\<rparr>)"
proof -
  have h1: "dbGetByWord searchDB (TrimSpace ''search'') = (Inr (Some searchRow), searchDB)"
    by code_simp
  have h2: "isURL (Link searchRow)"
    by code_simp
  have "GetLink dbGetByWord (QueryRepository_Create 0) searchDB ''search'' ''hello world'' =
          Some (Inr (TrimSpace (ReplaceAll (Link searchRow) ''{*}''
                        (QueryEscape (TrimSpace (ReplaceAll ''hello world'' ''{*}'' []))))),
                snd (QueryRepository_Create 0 searchDB (ID searchRow)))"
    using Resolve_substitution[where getByWord = dbGetByWord and w = searchDB
        and word = "''search''" and shortcut = searchRow and ?w1.0 = searchDB
        and createQuery = "QueryRepository_Create 0" and tail = "''hello world''", OF h1 h2]
    by (rule conjunct1)
  also have "\<dots> = Some (Inr ''https://google.com/search?q=hello+world'',
             searchDB\<lparr>queries := [\<lparr>QueryID = 1, WordID = 1, QueryCreatedAt = 0\<rparr>]\<rparr>)"
    by code_simp
  finally show ?thesis using h1 h2 by simp
qed

text \<open>
  The claim as the specification words it (the value is the URL-encoded tail, for every
  tail) fails for a tail that holds the token: the query \<^verbatim>\<open>search {*}\<close> splits into the
  head \<^verbatim>\<open>search\<close> and the tail \<^verbatim>\<open>{*}\<close>, whose URL-encoding is \<^verbatim>\<open>%7B%2A%7D\<close>, and the
  destination ends in \<^verbatim>\<open>q=\<close>.
\<close>

theorem Resolve_substitution_counterexample:
  "Resolve dbGetByWord (QueryRepository_Create 0) searchDB ''search {*}'' =
     Some (Inr ''https://google.com/search?q='',
           searchDB\<lparr>queries := [\<lparr>QueryID = 1, WordID = 1, QueryCreatedAt = 0\<rparr>]\<rparr>)
   \<and> moveLastWord ''search {*}'' [] = (''search'', ''{*}'')
   \<and> QueryEscape ''{*}'' = ''%7B%2A%7D''
   \<and> TrimSpace (ReplaceAll (Link searchRow) ''{*}'' (QueryEscape ''{*}'')) =
       ''https://google.com/search?q=%7B%2A%7D''"
  by code_simp

subsection \<open>Following an alias\<close>

lemma dbGetByWord_state [simp]: "snd (dbGetByWord db word) = db"
  by (simp add: dbGetByWord_def)

lemma QueryRepository_Create_linktable [simp]:
  "linktable (snd (QueryRepository_Create now db wordID)) = linktable db"
  by (simp add: QueryRepository_Create_def)

lemma TrimSpace_d: "TrimSpace ''d'' = ''d''" by code_simp
lemma TrimSpace_docs: "TrimSpace ''docs'' = ''docs''" by code_simp
lemma not_isURL_docs: "\<not> isURL ''docs''" by code_simp
lemma isURL_docs_example: "isURL ''https://docs.example.com''" by code_simp
lemma processResultLink_docs_example:
  "processResultLink ''https://docs.example.com'' [] = ''https://docs.example.com''" by code_simp

lemma chain_example:
  assumes d: "ShortcutRepository_GetByWord (linktable db) ''d'' = Some a" "Link a = ''docs''"
    and docs: "ShortcutRepository_GetByWord (linktable db) ''docs'' = Some b"
      "Link b = ''https://docs.example.com''"
  shows "map_option fst (Resolve dbGetByWord (QueryRepository_Create now) db ''d'') =
           Some (Inr ''https://docs.example.com'')"
proof -
  let ?db1 = "snd (QueryRepository_Create now db (ID a))"
  have 1: "dbGetByWord db (TrimSpace ''d'') = (Inr (Some a), db)"
    using d by (simp add: dbGetByWord_def TrimSpace_d)
  have 2: "dbGetByWord ?db1 (TrimSpace (Link a)) = (Inr (Some b), ?db1)"
    using d docs by (simp add: dbGetByWord_def TrimSpace_docs)
  have "Resolve dbGetByWord (QueryRepository_Create now) db ''d'' =
          GetLink dbGetByWord (QueryRepository_Create now) ?db1 (Link a) []"
    unfolding Resolve_def using 1 d(2) not_isURL_docs by (simp add: GetLink_hit_alias)
  also have "\<dots> = Some (Inr (processResultLink (Link b) []),
                 snd (QueryRepository_Create now ?db1 (ID b)))"
    using 2 docs(2) isURL_docs_example by (simp add: GetLink_hit_url)
  finally show ?thesis using docs(2) processResultLink_docs_example by simp
qed

text \<open>
  Claim C2.  After a hit whose link is no URL, \<^verbatim>\<open>GetLink\<close> calls itself with the link as the
  word and the tail as it is, in the state the usage record left: the link alone is the
  next head that is looked up.  The second conjunct is the chain of the tests: with
  \<^verbatim>\<open>d\<close> an alias of \<^verbatim>\<open>docs\<close> and \<^verbatim>\<open>docs\<close> mapped to \<^verbatim>\<open>https://docs.example.com\<close>, the
  query \<^verbatim>\<open>d\<close> resolves to that URL.
\<close>

theorem Resolve_alias:
  "(getByWord w (TrimSpace word) = (Inr (Some shortcut), w1) \<and> \<not> isURL (Link shortcut) \<longrightarrow>
      GetLink getByWord createQuery w word tail =
        GetLink getByWord createQuery (snd (createQuery w1 (ID shortcut))) (Link shortcut) tail)
   \<and> (ShortcutRepository_GetByWord (linktable db) ''d'' = Some a \<and> Link a = ''docs'' \<and>
       ShortcutRepository_GetByWord (linktable db) ''docs'' = Some b \<and>
       Link b = ''https://docs.example.com'' \<longrightarrow>
         map_option fst (Resolve dbGetByWord (QueryRepository_Create now) db ''d'') =
           Some (Inr ''https://docs.example.com''))"
  using chain_example[of db a b now] by (simp add: GetLink_hit_alias)

text \<open>Both conjuncts at the chain of the tests.\<close>

theorem Resolve_alias_witness:
  "dbGetByWord chainDB (TrimSpace ''d'') = (Inr (Some aliasRow), chainDB)
   \<and> \<not> isURL (Link aliasRow)
   \<and> GetLink dbGetByWord (QueryRepository_Create 0) chainDB ''d'' ''x'' =
       GetLink dbGetByWord (QueryRepository_Create 0)
         (snd (QueryRepository_Create 0 chainDB (ID aliasRow))) (Link aliasRow) ''x''
   \<and> ShortcutRepository_GetByWord (linktable chainDB) ''d'' = Some aliasRow
   \<and> Link aliasRow = ''docs''
   \<and> ShortcutRepository_GetByWord (linktable chainDB) ''docs'' = Some docsRow
   \<and> Link docsRow = ''https://docs.example.com''
   \<and> map_option fst (Resolve dbGetByWord (QueryRepository_Create 0) chainDB ''d'') =
       Some (Inr ''https://docs.example.com'')"
proof -
  have h1: "dbGetByWord chainDB (TrimSpace ''d'') = (Inr (Some aliasRow), chainDB)" by code_simp
  have h2: "\<not> isURL (Link aliasRow)" by code_simp
  have h3: "ShortcutRepository_GetByWord (linktable chainDB) ''d'' = Some aliasRow" by code_simp
  have h4: "Link aliasRow = ''docs''" by code_simp
  have h5: "ShortcutRepository_GetByWord (linktable chainDB) ''docs'' = Some docsRow" by code_simp
  have h6: "Link docsRow = ''https://docs.example.com''" by code_simp
  note t = Resolve_alias[where getByWord = dbGetByWord and w = chainDB and word = "''d''"
      and shortcut = aliasRow and ?w1.0 = chainDB and createQuery = "QueryRepository_Create 0"
      and tail = "''x''" and db = chainDB and a = aliasRow and b = docsRow and now = 0]
  show ?thesis using t h1 h2 h3 h4 h5 h6 by blast
qed

text \<open>
  The recursion is not a new resolution of the string \<^verbatim>\<open>target + " " + tail\<close>: that one
  looks the whole string up first.  With a keyword \<^verbatim>\<open>docs x\<close> in the store, the query
  \<^verbatim>\<open>d x\<close> (head \<^verbatim>\<open>d\<close>, an alias of \<^verbatim>\<open>docs\<close>, tail \<^verbatim>\<open>x\<close>) goes to the target of
  \<^verbatim>\<open>docs\<close>, and the query \<^verbatim>\<open>docs x\<close> to another.
\<close>

theorem Resolve_alias_counterexample:
  "ShortcutRepository_GetByWord (linktable longerDB) ''d'' = Some aliasRow
   \<and> Link aliasRow = ''docs''
   \<and> map_option fst (GetLink dbGetByWord (QueryRepository_Create 0) longerDB ''d'' ''x'') =
       Some (Inr ''https://docs.example.com/x'')
   \<and> map_option fst (Resolve dbGetByWord (QueryRepository_Create 0) longerDB (''docs'' @ '' '' @ ''x'')) =
       Some (Inr ''https://other.example.com'')
   \<and> map_option fst (Resolve dbGetByWord (QueryRepository_Create 0) longerDB ''d x'') =
       Some (Inr ''https://docs.example.com/x'')"
  by code_simp

subsection \<open>The retry after a failed lookup\<close>

lemma moveLastWord_fields:
  "Fields h \<noteq> [] \<Longrightarrow>
   moveLastWord h t = (Join (butlast (Fields h)) '' '', Join (last (Fields h) # Fields t) '' '')"
  by (simp add: moveLastWord_def Let_def)

lemma butlast_fields: "f \<in> set (butlast (Fields h)) \<Longrightarrow> f \<noteq> [] \<and> nospace f"
  using Fields_fields[of f h] by (blast dest: in_set_butlastD)

lemma shorter_head:
  fixes h t :: string
  assumes "TrimSpace h = h" and "Contains h '' ''"
  defines "h' \<equiv> fst (moveLastWord h t)"
  shows "h' = Join (butlast (Fields h)) '' ''"
    and "Fields h' = butlast (Fields h)"
    and "Fields h = Fields h' @ [last (Fields h)]"
    and "TrimSpace h' = h'"
    and "Suc (length (Fields h')) = length (Fields h)"
    and "h' \<noteq> h"
proof -
  have two: "2 \<le> length (Fields h)" using assms(1,2) by (rule Fields_trimmed_space)
  then have ne: "Fields h \<noteq> []" by auto
  show 1: "h' = Join (butlast (Fields h)) '' ''"
    unfolding h'_def by (simp add: moveLastWord_fields[OF ne])
  show 2: "Fields h' = butlast (Fields h)"
    unfolding 1 by (rule Fields_Join) (use butlast_fields in blast)
  show "Fields h = Fields h' @ [last (Fields h)]"
    unfolding 2 using ne by simp
  show "TrimSpace h' = h'"
    unfolding 1 by (rule TrimSpace_Join) (use butlast_fields in blast)
  show 5: "Suc (length (Fields h')) = length (Fields h)"
    unfolding 2 using ne by simp
  show "h' \<noteq> h" using 5 by auto
qed

lemma GetLink_TrimSpace:
  "GetLink getByWord createQuery w (TrimSpace word) tail = GetLink getByWord createQuery w word tail"
  by (simp add: GetLink.simps[of getByWord createQuery w "TrimSpace word" tail]
      GetLink.simps[of getByWord createQuery w word tail])

lemma traceGetByWord_miss:
  "fst (getByWord w k) = Inr None \<Longrightarrow>
   traceGetByWord getByWord (w, log) k =
     (Inr None, (snd (getByWord w k), log @ [GetByWordCall k (Inr None)]))"
  by (cases "getByWord w k") (simp add: traceGetByWord_def)

lemma split_loop:
  assumes miss: "\<And>w k. fst (getByWord w k) = Inr None"
  shows "TrimSpace h = h \<Longrightarrow>
    \<exists>heads msg w'.
      GetLink (traceGetByWord getByWord) (traceCreateQuery createQuery) (w, log) h tail =
        Some (Inl (InvalidQueryError msg), (w', log @ map (\<lambda>x. GetByWordCall x (Inr None)) heads))
      \<and> heads \<noteq> [] \<and> hd heads = h \<and> dropsLastWord heads \<and> distinct heads
      \<and> length heads \<le> max 1 (length (Fields h))
      \<and> (\<forall>x \<in> set heads. length (Fields x) \<le> length (Fields h))"
proof (induction "length (Fields h)" arbitrary: h w log tail rule: less_induct)
  case less
  let ?G = "GetLink (traceGetByWord getByWord) (traceCreateQuery createQuery)"
  let ?w1 = "(snd (getByWord w h), log @ [GetByWordCall h (Inr None)])"
  have look: "traceGetByWord getByWord (w, log) (TrimSpace h) = (Inr None, ?w1)"
    using less.prems miss by (simp add: traceGetByWord_miss)
  show ?case
  proof (cases "Contains h '' ''")
    case False
    have "?G (w, log) h tail =
            Some (Inl (InvalidQueryError (''Unable to find link for query '' @ TrimSpace h @ '' '' @ tail)), ?w1)"
      using look False less.prems by (simp add: GetLink_miss_fail)
    then have "?G (w, log) h tail =
        Some (Inl (InvalidQueryError (''Unable to find link for query '' @ TrimSpace h @ '' '' @ tail)),
              (snd (getByWord w h), log @ map (\<lambda>x. GetByWordCall x (Inr None)) [h]))
      \<and> [h] \<noteq> [] \<and> hd [h] = h \<and> dropsLastWord [h] \<and> distinct [h]
      \<and> length [h] \<le> max 1 (length (Fields h))
      \<and> (\<forall>x \<in> set [h]. length (Fields x) \<le> length (Fields h))"
      by simp
    then show ?thesis by blast
  next
    case True
    define h' where "h' = fst (moveLastWord h tail)"
    define t' where "t' = snd (moveLastWord h tail)"
    note sh = shorter_head[OF less.prems True, of tail, folded h'_def]
    have step: "?G (w, log) h tail = ?G ?w1 h' t'"
      using look True less.prems unfolding h'_def t'_def by (simp add: GetLink_miss_split)
    have "length (Fields h') < length (Fields h)" using sh(5) by simp
    from less.hyps[OF this sh(4), of "snd (getByWord w h)" "log @ [GetByWordCall h (Inr None)]" t']
    obtain heads msg w' where ih:
      "?G ?w1 h' t' = Some (Inl (InvalidQueryError msg),
          (w', (log @ [GetByWordCall h (Inr None)]) @ map (\<lambda>x. GetByWordCall x (Inr None)) heads))"
      "heads \<noteq> []" "hd heads = h'" "dropsLastWord heads" "distinct heads"
      "length heads \<le> max 1 (length (Fields h'))"
      "\<forall>x \<in> set heads. length (Fields x) \<le> length (Fields h')"
      by blast
    have two: "2 \<le> length (Fields h)" using less.prems True by (rule Fields_trimmed_space)
    have a: "?G (w, log) h tail = Some (Inl (InvalidQueryError msg),
          (w', log @ map (\<lambda>x. GetByWordCall x (Inr None)) (h # heads)))"
      using step ih(1) by simp
    have b: "dropsLastWord (h # heads)"
      using ih(2,3,4) sh(3) by (cases heads) simp_all
    have c: "distinct (h # heads)"
      using ih(5,7) sh(5) by auto
    have d: "length (h # heads) \<le> max 1 (length (Fields h))"
      using ih(6) sh(5) two by simp
    have e: "\<forall>x \<in> set (h # heads). length (Fields x) \<le> length (Fields h)"
      using ih(7) sh(5) by auto
    show ?thesis using a b c d e by (intro exI[of _ "h # heads"] exI[of _ msg] exI[of _ w']) simp
  qed
qed

lemma split_loop_result:
  assumes miss: "\<And>w k. fst (getByWord w k) = Inr None"
  shows "TrimSpace h = h \<Longrightarrow>
    \<exists>msg w'. GetLink getByWord createQuery w h tail = Some (Inl (InvalidQueryError msg), w')"
proof (induction "length (Fields h)" arbitrary: h w tail rule: less_induct)
  case less
  have look: "getByWord w (TrimSpace h) = (Inr None, snd (getByWord w h))"
    using less.prems miss[of w h] by (cases "getByWord w h") simp
  show ?case
  proof (cases "Contains h '' ''")
    case False
    then show ?thesis using look less.prems by (simp add: GetLink_miss_fail)
  next
    case True
    note sh = shorter_head[OF less.prems True, of tail]
    have "length (Fields (fst (moveLastWord h tail))) < length (Fields h)" using sh(5) by simp
    from less.hyps[OF this sh(4)] show ?thesis
      using look True less.prems by (simp add: GetLink_miss_split)
  qed
qed

lemma GetLink_not_found_only:
  "GetLink getByWord createQuery w word tail = Some y \<Longrightarrow>
   \<forall>msg w'. y = (Inl (InvalidQueryError msg), w') \<longrightarrow>
     (\<exists>w0 head tl. getByWord w0 head = (Inr None, w') \<and> \<not> Contains head '' '' \<and>
        msg = ''Unable to find link for query '' @ Join [head, tl] '' '')"
proof (induction rule: GetLink.raw_induct[rotated 1, consumes 1])
  case (1 G getByWord createQuery w word searchTerm y)
  show ?case
  proof (cases "getByWord w (TrimSpace word)")
    case (Pair r w1)
    show ?thesis
    proof (cases r)
      case (Inl err)
      with Pair 1(2) show ?thesis by (auto simp: Let_def)
    next
      case (Inr found)
      show ?thesis
      proof (cases found)
        case None
        show ?thesis
        proof (cases "Contains (TrimSpace word) '' ''")
          case True
          with None Inr Pair 1(2) have
            "G getByWord createQuery w1 (fst (moveLastWord (TrimSpace word) searchTerm))
               (snd (moveLastWord (TrimSpace word) searchTerm)) = Some y"
            by (simp add: Let_def case_prod_beta)
          from 1(1)[OF this] show ?thesis .
        next
          case False
          with None Inr Pair 1(2) have
            "y = (Inl (InvalidQueryError (''Unable to find link for query '' @
                    Join [TrimSpace word, searchTerm] '' '')), w1)"
            by (simp add: Let_def)
          with False None Inr Pair show ?thesis by blast
        qed
      next
        case (Some shortcut)
        show ?thesis
        proof (cases "isURL (Link shortcut)")
          case True
          with Some Inr Pair 1(2) show ?thesis by (auto simp: Let_def case_prod_beta)
        next
          case False
          with Some Inr Pair 1(2) have
            "G getByWord createQuery (snd (createQuery w1 (ID shortcut))) (Link shortcut) searchTerm = Some y"
            by (simp add: Let_def case_prod_beta)
          from 1(1)[OF this] show ?thesis .
        qed
      qed
    qed
  qed
qed

subsection \<open>The failure of a resolution\<close>

text \<open>
  Claim C3.  \<^verbatim>\<open>GetLink\<close> fails with an \<^verbatim>\<open>InvalidQueryError\<close> exactly at a lookup that
  returns no shortcut for a head without a space character in it (the code's test for
  "no further split" is \<^verbatim>\<open>strings.Contains(word, " ")\<close>), and the message carries that
  head and the tail, joined by a space.  First conjunct: such a lookup fails the call;
  second: a call that fails so has made such a lookup; third: over a store in which
  every lookup misses, every query ends so (the splitting is exhausted); the last two:
  the empty query and the query \<^verbatim>\<open>nonexistent\<close>.
\<close>

theorem Resolve_not_found:
  "(getByWord w (TrimSpace word) = (Inr None, w1) \<and> \<not> Contains (TrimSpace word) '' '' \<longrightarrow>
      GetLink getByWord createQuery w word tail =
        Some (Inl (InvalidQueryError
          (''Unable to find link for query '' @ Join [TrimSpace word, tail] '' '')), w1))
   \<and> (GetLink getByWord createQuery w word tail = Some (Inl (InvalidQueryError msg), w') \<longrightarrow>
        (\<exists>w0 head tl. getByWord w0 head = (Inr None, w') \<and> \<not> Contains head '' '' \<and>
           msg = ''Unable to find link for query '' @ Join [head, tl] '' ''))
   \<and> ((\<forall>w k. fst (getByWord w k) = Inr None) \<longrightarrow>
        (\<exists>msg w'. Resolve getByWord createQuery w query = Some (Inl (InvalidQueryError msg), w')))
   \<and> (getByWord w [] = (Inr None, w1) \<longrightarrow>
        Resolve getByWord createQuery w [] =
          Some (Inl (InvalidQueryError ''Unable to find link for query  ''), w1))
   \<and> (getByWord w ''nonexistent'' = (Inr None, w1) \<longrightarrow>
        Resolve getByWord createQuery w ''nonexistent'' =
          Some (Inl (InvalidQueryError ''Unable to find link for query nonexistent ''), w1))"
proof (intro conjI impI)
  assume "getByWord w (TrimSpace word) = (Inr None, w1) \<and> \<not> Contains (TrimSpace word) '' ''"
  then show "GetLink getByWord createQuery w word tail =
        Some (Inl (InvalidQueryError
          (''Unable to find link for query '' @ Join [TrimSpace word, tail] '' '')), w1)"
    by (simp add: GetLink_miss_fail)
next
  assume "GetLink getByWord createQuery w word tail = Some (Inl (InvalidQueryError msg), w')"
  from GetLink_not_found_only[OF this]
  show "\<exists>w0 head tl. getByWord w0 head = (Inr None, w') \<and> \<not> Contains head '' '' \<and>
           msg = ''Unable to find link for query '' @ Join [head, tl] '' ''"
    by blast
next
  assume miss: "\<forall>w k. fst (getByWord w k) = Inr None"
  have "\<exists>msg w'. GetLink getByWord createQuery w (TrimSpace query) [] =
          Some (Inl (InvalidQueryError msg), w')"
    by (rule split_loop_result) (use miss in simp_all)
  then show "\<exists>msg w'. Resolve getByWord createQuery w query = Some (Inl (InvalidQueryError msg), w')"
    by (simp add: Resolve_def GetLink_TrimSpace)
next
  have n: "\<not> Contains [] '' ''" by code_simp
  assume "getByWord w [] = (Inr None, w1)"
  then show "Resolve getByWord createQuery w [] =
          Some (Inl (InvalidQueryError ''Unable to find link for query  ''), w1)"
    using n by (simp add: Resolve_def GetLink_miss_fail)
next
  have t: "TrimSpace ''nonexistent'' = ''nonexistent''" by code_simp
  have n: "\<not> Contains ''nonexistent'' '' ''" by code_simp
  assume "getByWord w ''nonexistent'' = (Inr None, w1)"
  then show "Resolve getByWord createQuery w ''nonexistent'' =
          Some (Inl (InvalidQueryError ''Unable to find link for query nonexistent ''), w1)"
    using n t by (simp add: Resolve_def GetLink_miss_fail)
qed

text \<open>The theorem over a keyword store without a shortcut.\<close>

theorem Resolve_not_found_witness:
  "noShortcuts emptyDB (TrimSpace ''nonexistent'') = (Inr None, emptyDB)
   \<and> \<not> Contains (TrimSpace ''nonexistent'') '' ''
   \<and> GetLink noShortcuts (QueryRepository_Create 0) emptyDB ''nonexistent'' ''x'' =
       Some (Inl (InvalidQueryError ''Unable to find link for query nonexistent x''), emptyDB)
   \<and> (\<exists>w0 head tl. noShortcuts w0 head = (Inr None, emptyDB) \<and> \<not> Contains head '' '' \<and>
         ''Unable to find link for query nonexistent x'' =
           ''Unable to find link for query '' @ Join [head, tl] '' '')
   \<and> (\<forall>w k. fst (noShortcuts w k) = Inr None)
   \<and> (\<exists>msg w'. Resolve noShortcuts (QueryRepository_Create 0) emptyDB ''search golang'' =
         Some (Inl (InvalidQueryError msg), w'))
   \<and> noShortcuts emptyDB [] = (Inr None, emptyDB)
   \<and> Resolve noShortcuts (QueryRepository_Create 0) emptyDB [] =
       Some (Inl (InvalidQueryError ''Unable to find link for query  ''), emptyDB)
   \<and> noShortcuts emptyDB ''nonexistent'' = (Inr None, emptyDB)
   \<and> Resolve noShortcuts (QueryRepository_Create 0) emptyDB ''nonexistent'' =
       Some (Inl (InvalidQueryError ''Unable to find link for query nonexistent ''), emptyDB)"
proof -
  have h1: "noShortcuts emptyDB (TrimSpace ''nonexistent'') = (Inr None, emptyDB)"
    by (simp add: noShortcuts_def)
  have h2: "\<not> Contains (TrimSpace ''nonexistent'') '' ''" by code_simp
  have h3: "\<forall>w k. fst (noShortcuts w k) = Inr None" by (simp add: noShortcuts_def)
  have h4: "noShortcuts emptyDB [] = (Inr None, emptyDB)" by (simp add: noShortcuts_def)
  have h5: "noShortcuts emptyDB ''nonexistent'' = (Inr None, emptyDB)" by (simp add: noShortcuts_def)
  have j: "''Unable to find link for query '' @ Join [TrimSpace ''nonexistent'', ''x''] '' '' =
           ''Unable to find link for query nonexistent x''" by code_simp
  note t = Resolve_not_found[where getByWord = noShortcuts and w = emptyDB
      and word = "''nonexistent''" and ?w1.0 = emptyDB and createQuery = "QueryRepository_Create 0"
      and tail = "''x''" and w' = emptyDB and query = "''search golang''"
      and msg = "''Unable to find link for query nonexistent x''"]
  have a: "GetLink noShortcuts (QueryRepository_Create 0) emptyDB ''nonexistent'' ''x'' =
       Some (Inl (InvalidQueryError ''Unable to find link for query nonexistent x''), emptyDB)"
    using t h1 h2 unfolding j by blast
  show ?thesis using t a h1 h2 h3 h4 h5 by blast
qed

text \<open>
  The head at which the call fails need not be a single word: \<^verbatim>\<open>moveLastWord\<close> splits at
  any white space, the test before it looks for a space only.  The query of the two
  words \<^verbatim>\<open>a\<close> and \<^verbatim>\<open>b\<close> with a tab between them fails though \<^verbatim>\<open>a\<close> has a shortcut; with
  a space between them it resolves.
\<close>

theorem Resolve_not_found_counterexample:
  "map_option fst (Resolve dbGetByWord (QueryRepository_Create 0) tabDB (''a'' @ [CHR 0x09] @ ''b'')) =
     Some (Inl (InvalidQueryError (''Unable to find link for query a'' @ [CHR 0x09] @ ''b '')))
   \<and> Fields (''a'' @ [CHR 0x09] @ ''b'') = [''a'', ''b'']
   \<and> ShortcutRepository_GetByWord (linktable tabDB) ''a'' = Some tabRow
   \<and> map_option fst (Resolve dbGetByWord (QueryRepository_Create 0) tabDB ''a b'') =
     Some (Inr ''https://a.example.com'')"
  by code_simp

subsection \<open>A target without the token\<close>





subsection \<open>Validation of a new shortcut\<close>

lemma UpdateLink_cases:
  "UpdateLink create now w req userID =
     (case firstFailure req of
        Some r \<Rightarrow> (Some (InvalidQueryError (reasonMessage r)), w)
      | None \<Rightarrow>
          (case create w \<lparr>ID = 0, Word = ReqWord req, Link = ReqLink req, User = userID,
                           CreatedAt = now\<rparr> of
             (Some err, w1) \<Rightarrow> (Some (Errorf ''failed to create shortcut'' err), w1)
           | (None, w1) \<Rightarrow> (None, w1)))"
  by (simp add: UpdateLink_def validateLinkRequest_def firstFailure_def Let_def)

lemma reasonMessage_inj: "inj reasonMessage"
proof (rule injI)
  fix x y assume "reasonMessage x = reasonMessage y"
  then show "x = y" by (cases x; cases y) simp_all
qed

lemma UpdateLink_rejects_iff:
  "(\<exists>msg. fst (UpdateLink create now w req userID) = Some (InvalidQueryError msg))
     \<longleftrightarrow> firstFailure req \<noteq> None"
  unfolding UpdateLink_cases
  by (cases "firstFailure req";
      cases "create w \<lparr>ID = 0, Word = ReqWord req, Link = ReqLink req, User = userID, CreatedAt = now\<rparr>")
     (auto split: option.splits)

lemma UpdateLink_db:
  "UpdateLink (dbCreate t) now db req userID =
     (case firstFailure req of
        Some r \<Rightarrow> (Some (InvalidQueryError (reasonMessage r)), db)
      | None \<Rightarrow> (None, db\<lparr>linktable := linktable db @
          [\<lparr>ID = nextId (map ID (linktable db)), Word = ReqWord req, Link = ReqLink req,
            User = userID, CreatedAt = t\<rparr>]\<rparr>))"
  unfolding UpdateLink_cases by (simp add: dbCreate_def ShortcutRepository_Create_def split: option.splits)

text \<open>
  Claim C4.  \<^verbatim>\<open>UpdateLink\<close> (the specification's \<^verbatim>\<open>ValidateAndStore\<close>) returns the
  \<^verbatim>\<open>InvalidQueryError\<close> of the first check that fails, in the order empty word, trailing
  slash, empty target, target equal to word, target no URL, where the first four checks
  read the trimmed word and the trimmed target and the fifth the target as given, and
  leaves the store as it was; when no check fails it calls the repository's
  \<^verbatim>\<open>Create\<close> with the word and the target as given, whose error it wraps.
  The five messages are pairwise different; the result is an \<^verbatim>\<open>InvalidQueryError\<close>
  exactly when a check fails, which is exactly when one of the five conditions holds;
  for a request whose word and target have no white space around them the first failed
  check is the one of the specification's list read word for word; over the database, a
  call that succeeds appends one row, whose link is a URL, and a call that returns an
  error changes nothing.
\<close>

theorem UpdateLink_validation:
  "UpdateLink create now w req userID =
     (case firstFailure req of
        Some r \<Rightarrow> (Some (InvalidQueryError (reasonMessage r)), w)
      | None \<Rightarrow>
          (case create w \<lparr>ID = 0, Word = ReqWord req, Link = ReqLink req, User = userID,
                           CreatedAt = now\<rparr> of
             (Some err, w1) \<Rightarrow> (Some (Errorf ''failed to create shortcut'' err), w1)
           | (None, w1) \<Rightarrow> (None, w1)))
   \<and> inj reasonMessage
   \<and> ((\<exists>msg. fst (UpdateLink create now w req userID) = Some (InvalidQueryError msg))
        \<longleftrightarrow> firstFailure req \<noteq> None)
   \<and> (firstFailure req = None \<longleftrightarrow>
        TrimSpace (ReqWord req) \<noteq> [] \<and> \<not> HasSuffix (TrimSpace (ReqWord req)) ''/''
        \<and> TrimSpace (ReqLink req) \<noteq> [] \<and> TrimSpace (ReqLink req) \<noteq> TrimSpace (ReqWord req)
        \<and> isURL (ReqLink req))
   \<and> (TrimSpace (ReqWord req) = ReqWord req \<and> TrimSpace (ReqLink req) = ReqLink req \<longrightarrow>
        firstFailure req = claimedFailure req \<and> firstFailure req = claimedFailureTrimmed req)
   \<and> (UpdateLink (dbCreate t) now db req userID = (None, db') \<longrightarrow>
        (\<exists>row. linktable db' = linktable db @ [row] \<and> Word row = ReqWord req \<and>
               Link row = ReqLink req \<and> isURL (Link row)))
   \<and> (fst (UpdateLink (dbCreate t) now db req userID) \<noteq> None \<longrightarrow>
        snd (UpdateLink (dbCreate t) now db req userID) = db)"
proof (intro conjI impI)
  show "UpdateLink create now w req userID =
     (case firstFailure req of
        Some r \<Rightarrow> (Some (InvalidQueryError (reasonMessage r)), w)
      | None \<Rightarrow>
          (case create w \<lparr>ID = 0, Word = ReqWord req, Link = ReqLink req, User = userID,
                           CreatedAt = now\<rparr> of
             (Some err, w1) \<Rightarrow> (Some (Errorf ''failed to create shortcut'' err), w1)
           | (None, w1) \<Rightarrow> (None, w1)))"
    by (rule UpdateLink_cases)
  show "inj reasonMessage" by (rule reasonMessage_inj)
  show "(\<exists>msg. fst (UpdateLink create now w req userID) = Some (InvalidQueryError msg))
        \<longleftrightarrow> firstFailure req \<noteq> None"
    by (rule UpdateLink_rejects_iff)
  show "firstFailure req = None \<longleftrightarrow>
        TrimSpace (ReqWord req) \<noteq> [] \<and> \<not> HasSuffix (TrimSpace (ReqWord req)) ''/''
        \<and> TrimSpace (ReqLink req) \<noteq> [] \<and> TrimSpace (ReqLink req) \<noteq> TrimSpace (ReqWord req)
        \<and> isURL (ReqLink req)"
    by (simp add: firstFailure_def)
next
  assume "TrimSpace (ReqWord req) = ReqWord req \<and> TrimSpace (ReqLink req) = ReqLink req"
  then show "firstFailure req = claimedFailure req"
    by (simp add: firstFailure_def claimedFailure_def)
next
  assume "TrimSpace (ReqWord req) = ReqWord req \<and> TrimSpace (ReqLink req) = ReqLink req"
  then show "firstFailure req = claimedFailureTrimmed req"
    by (simp add: firstFailure_def claimedFailureTrimmed_def Let_def)
next
  assume a: "UpdateLink (dbCreate t) now db req userID = (None, db')"
  then have n: "firstFailure req = None" by (auto simp: UpdateLink_db split: option.splits)
  then have "isURL (ReqLink req)" by (auto simp: firstFailure_def split: if_splits)
  with a n show "\<exists>row. linktable db' = linktable db @ [row] \<and> Word row = ReqWord req \<and>
               Link row = ReqLink req \<and> isURL (Link row)"
    by (auto simp: UpdateLink_db)
next
  assume "fst (UpdateLink (dbCreate t) now db req userID) \<noteq> None"
  then show "snd (UpdateLink (dbCreate t) now db req userID) = db"
    by (auto simp: UpdateLink_db split: option.splits)
qed

text \<open>
  The specification's list, read word for word, is not what is rejected.  A word with a
  slash before a trailing space does not end in a slash, and a target that is the word
  followed by a space is not equal to the word: both requests are in none of the five
  cases of the list, and both are rejected, since these two checks read the trimmed
  strings.  With every check read on the trimmed strings, a URL after a leading space
  is in none of the five cases, and it is rejected, since the last check reads the
  target as it was given.
\<close>

theorem UpdateLink_validation_counterexample:
  "claimedFailure \<lparr>ReqWord = ''docs/ '', ReqLink = ''https://docs.example.com''\<rparr> = None
   \<and> UpdateLink (dbCreate 7) 7 emptyDB
         \<lparr>ReqWord = ''docs/ '', ReqLink = ''https://docs.example.com''\<rparr> ''testuser'' =
       (Some (InvalidQueryError ''Words ending in a '/' are not supported''), emptyDB)
   \<and> claimedFailure \<lparr>ReqWord = ''https://x'', ReqLink = ''https://x ''\<rparr> = None
   \<and> UpdateLink (dbCreate 7) 7 emptyDB
         \<lparr>ReqWord = ''https://x'', ReqLink = ''https://x ''\<rparr> ''testuser'' =
       (Some (InvalidQueryError ''Word points to itself, will cause a recursive lookup''), emptyDB)
   \<and> claimedFailureTrimmed \<lparr>ReqWord = ''docs'', ReqLink = '' https://docs.example.com''\<rparr> = None
   \<and> UpdateLink (dbCreate 7) 7 emptyDB
         \<lparr>ReqWord = ''docs'', ReqLink = '' https://docs.example.com''\<rparr> ''testuser'' =
       (Some (InvalidQueryError ''URL must start with http:// or https://''), emptyDB)"
  by code_simp

text \<open>The theorem at the requests of \<^verbatim>\<open>TestLinkService_UpdateLink\<close>: the valid one, the
  self-referential one, and the first failure of the others.\<close>

theorem UpdateLink_validation_witness:
  "UpdateLink (dbCreate 7) 7 emptyDB \<lparr>ReqWord = ''docs'', ReqLink = ''https://docs.example.com''\<rparr>
       ''testuser'' =
     (None, \<lparr>linktable = [\<lparr>ID = 1, Word = ''docs'', Link = ''https://docs.example.com'',
                             User = ''testuser'', CreatedAt = 7\<rparr>], queries = []\<rparr>)
   \<and> (\<exists>row. [\<lparr>ID = 1, Word = ''docs'', Link = ''https://docs.example.com'',
                User = ''testuser'', CreatedAt = 7\<rparr>] = linktable emptyDB @ [row] \<and>
          Word row = ''docs'' \<and> Link row = ''https://docs.example.com'' \<and> isURL (Link row))
   \<and> fst (UpdateLink (dbCreate 7) 7 emptyDB \<lparr>ReqWord = ''test'', ReqLink = ''test''\<rparr> ''testuser'')
       \<noteq> None
   \<and> snd (UpdateLink (dbCreate 7) 7 emptyDB \<lparr>ReqWord = ''test'', ReqLink = ''test''\<rparr> ''testuser'')
       = emptyDB
   \<and> firstFailure \<lparr>ReqWord = ''docs'', ReqLink = ''https://docs.example.com''\<rparr> =
       claimedFailure \<lparr>ReqWord = ''docs'', ReqLink = ''https://docs.example.com''\<rparr>
   \<and> firstFailure \<lparr>ReqWord = ''test'', ReqLink = ''test''\<rparr> =
       claimedFailureTrimmed \<lparr>ReqWord = ''test'', ReqLink = ''test''\<rparr>
   \<and> firstFailure \<lparr>ReqWord = ''test'', ReqLink = ''test''\<rparr> = Some SelfReferential
   \<and> firstFailure \<lparr>ReqWord = [], ReqLink = []\<rparr> = Some EmptyWord
   \<and> firstFailure \<lparr>ReqWord = ''docs/'', ReqLink = []\<rparr> = Some TrailingSlash
   \<and> firstFailure \<lparr>ReqWord = ''docs'', ReqLink = '' ''\<rparr> = Some EmptyLink
   \<and> firstFailure \<lparr>ReqWord = ''docs'', ReqLink = ''example.com''\<rparr> = Some LinkNotURL"
proof -
  let ?db = "\<lparr>linktable = [\<lparr>ID = 1, Word = ''docs'', Link = ''https://docs.example.com'',
                             User = ''testuser'', CreatedAt = 7\<rparr>], queries = []\<rparr>"
  have h1: "UpdateLink (dbCreate 7) 7 emptyDB
       \<lparr>ReqWord = ''docs'', ReqLink = ''https://docs.example.com''\<rparr> ''testuser'' = (None, ?db)"
    by code_simp
  have h2: "fst (UpdateLink (dbCreate 7) 7 emptyDB \<lparr>ReqWord = ''test'', ReqLink = ''test''\<rparr> ''testuser'')
       \<noteq> None"
    by code_simp
  have f: "firstFailure \<lparr>ReqWord = ''test'', ReqLink = ''test''\<rparr> = Some SelfReferential
   \<and> firstFailure \<lparr>ReqWord = [], ReqLink = []\<rparr> = Some EmptyWord
   \<and> firstFailure \<lparr>ReqWord = ''docs/'', ReqLink = []\<rparr> = Some TrailingSlash
   \<and> firstFailure \<lparr>ReqWord = ''docs'', ReqLink = '' ''\<rparr> = Some EmptyLink
   \<and> firstFailure \<lparr>ReqWord = ''docs'', ReqLink = ''example.com''\<rparr> = Some LinkNotURL"
    by code_simp
  note t1 = UpdateLink_validation[where create = "dbCreate 7" and w = emptyDB
      and t = 7 and now = 7 and db = emptyDB and db' = ?db
      and req = "\<lparr>ReqWord = ''docs'', ReqLink = ''https://docs.example.com''\<rparr>"
      and userID = "''testuser''"]
  note t2 = UpdateLink_validation[where create = "dbCreate 7" and w = emptyDB
      and t = 7 and now = 7 and db = emptyDB and db' = emptyDB
      and req = "\<lparr>ReqWord = ''test'', ReqLink = ''test''\<rparr>" and userID = "''testuser''"]
  have tr1: "TrimSpace (ReqWord \<lparr>ReqWord = ''docs'', ReqLink = ''https://docs.example.com''\<rparr>) =
               ReqWord \<lparr>ReqWord = ''docs'', ReqLink = ''https://docs.example.com''\<rparr>
            \<and> TrimSpace (ReqLink \<lparr>ReqWord = ''docs'', ReqLink = ''https://docs.example.com''\<rparr>) =
               ReqLink \<lparr>ReqWord = ''docs'', ReqLink = ''https://docs.example.com''\<rparr>"
    by code_simp
  have tr2: "TrimSpace (ReqWord \<lparr>ReqWord = ''test'', ReqLink = ''test''\<rparr>) =
               ReqWord \<lparr>ReqWord = ''test'', ReqLink = ''test''\<rparr>
            \<and> TrimSpace (ReqLink \<lparr>ReqWord = ''test'', ReqLink = ''test''\<rparr>) =
               ReqLink \<lparr>ReqWord = ''test'', ReqLink = ''test''\<rparr>"
    by code_simp
  have g1: "firstFailure \<lparr>ReqWord = ''docs'', ReqLink = ''https://docs.example.com''\<rparr> =
       claimedFailure \<lparr>ReqWord = ''docs'', ReqLink = ''https://docs.example.com''\<rparr>"
    using t1 tr1 by blast
  have g2: "firstFailure \<lparr>ReqWord = ''test'', ReqLink = ''test''\<rparr> =
       claimedFailureTrimmed \<lparr>ReqWord = ''test'', ReqLink = ''test''\<rparr>"
    using t2 tr2 by blast
  have a: "\<exists>row. linktable ?db = linktable emptyDB @ [row] \<and>
          Word row = ReqWord \<lparr>ReqWord = ''docs'', ReqLink = ''https://docs.example.com''\<rparr> \<and>
          Link row = ReqLink \<lparr>ReqWord = ''docs'', ReqLink = ''https://docs.example.com''\<rparr> \<and>
          isURL (Link row)"
    using t1 h1 by blast
  have b: "snd (UpdateLink (dbCreate 7) 7 emptyDB \<lparr>ReqWord = ''test'', ReqLink = ''test''\<rparr> ''testuser'')
       = emptyDB"
    using t2 h2 by blast
  from a have a': "\<exists>row. [\<lparr>ID = 1, Word = ''docs'', Link = ''https://docs.example.com'',
                User = ''testuser'', CreatedAt = 7\<rparr>] = linktable emptyDB @ [row] \<and>
          Word row = ''docs'' \<and> Link row = ''https://docs.example.com'' \<and> isURL (Link row)"
    by simp
  show ?thesis using h1 a' h2 b f g1 g2 by blast
qed


subsection \<open>The keyword store\<close>



lemma orderByIdDesc_set [simp]: "set (orderByIdDesc rows) = set rows"
  by (simp add: orderByIdDesc_def)

lemma orderByIdDesc_hd:
  assumes "orderByIdDesc rows = r # rest"
  shows "r \<in> set rows \<and> (\<forall>x \<in> set rows. ID x \<le> ID r)"
proof -
  from assms have s: "sort_key ID rows = rev rest @ [r]"
    unfolding orderByIdDesc_def by (metis rev.simps(2) rev_rev_ident)
  have "sorted (map ID (sort_key ID rows))" by simp
  then have "\<forall>x \<in> set (rev rest). ID x \<le> ID r"
    unfolding s by (auto simp: sorted_append)
  moreover have "set rows = set (rev rest @ [r])" using s by (metis set_sort)
  ultimately show ?thesis by auto
qed

lemma GetByWord_Some:
  assumes "ShortcutRepository_GetByWord rows k = Some r"
  shows "r \<in> set rows \<and> Word r = k \<and> (\<forall>x \<in> set rows. Word x = k \<longrightarrow> ID x \<le> ID r)"
proof -
  from assms obtain rest where "orderByIdDesc (filter (\<lambda>r. Word r = k) rows) = r # rest"
    by (auto simp: ShortcutRepository_GetByWord_def split: list.splits)
  from orderByIdDesc_hd[OF this] show ?thesis by auto
qed

lemma GetByWord_None:
  "ShortcutRepository_GetByWord rows k = None \<longleftrightarrow> (\<forall>x \<in> set rows. Word x \<noteq> k)"
proof -
  have "orderByIdDesc (filter (\<lambda>r. Word r = k) rows) = [] \<longleftrightarrow> (\<forall>x \<in> set rows. Word x \<noteq> k)"
    by (metis (mono_tags, lifting) orderByIdDesc_set empty_filter_conv set_empty)
  then show ?thesis by (auto simp: ShortcutRepository_GetByWord_def split: list.splits)
qed


lemma GetByWord_unique:
  assumes "distinct (map ID rows)"
  shows "ShortcutRepository_GetByWord rows (Word r) = Some r \<longleftrightarrow>
         r \<in> set rows \<and> (\<forall>x \<in> set rows. Word x = Word r \<longrightarrow> ID x \<le> ID r)"
proof
  assume "ShortcutRepository_GetByWord rows (Word r) = Some r"
  from GetByWord_Some[OF this] show "r \<in> set rows \<and> (\<forall>x \<in> set rows. Word x = Word r \<longrightarrow> ID x \<le> ID r)"
    by simp
next
  assume a: "r \<in> set rows \<and> (\<forall>x \<in> set rows. Word x = Word r \<longrightarrow> ID x \<le> ID r)"
  have inj: "inj_on ID (set rows)" using assms by (simp add: distinct_map)
  show "ShortcutRepository_GetByWord rows (Word r) = Some r"
  proof (cases "ShortcutRepository_GetByWord rows (Word r)")
    case None
    then show ?thesis using a by (auto simp: GetByWord_None)
  next
    case (Some r')
    from GetByWord_Some[OF this] a have "r' \<in> set rows" "ID r' = ID r" by force+
    with inj a have "r' = r" by (auto dest: inj_onD)
    with Some show ?thesis by simp
  qed
qed

lemma createAll_append: "\<exists>ext. createAll later rows = rows @ ext"
proof (induction later arbitrary: rows)
  case Nil
  show ?case by (simp add: createAll_def)
next
  case (Cons c later)
  obtain now shortcut where c: "c = (now, shortcut)" by (cases c)
  from Cons[of "ShortcutRepository_Create now rows shortcut"]
  show ?case by (auto simp: createAll_def c ShortcutRepository_Create_def)
qed



subsection \<open>Two shortcuts for one keyword\<close>



subsection \<open>The list of live shortcuts\<close>

lemma latestRows_set:
  "set (latestRows rows) = {r \<in> set rows. \<forall>x \<in> set rows. Word x = Word r \<longrightarrow> ID x \<le> ID r}"
  by (auto simp: latestRows_def list_all_iff)

lemma latestRows_GetByWord:
  assumes "distinct (map ID rows)"
  shows "r \<in> set (latestRows rows) \<longleftrightarrow> ShortcutRepository_GetByWord rows (Word r) = Some r"
  using GetByWord_unique[OF assms, of r] by (simp add: latestRows_set)

lemma orderByIdDesc_sorted:
  assumes "distinct (map ID rows)"
  shows "sorted_wrt (>) (map ID (orderByIdDesc rows))"
proof -
  have "distinct (map ID (sort_key ID rows))" using assms by (metis distinct_map distinct_sort set_sort)
  moreover have "sorted (map ID (sort_key ID rows))" by simp
  ultimately have "sorted_wrt (<) (map ID (sort_key ID rows))" by (simp add: strict_sorted_iff)
  then show ?thesis by (simp add: orderByIdDesc_def rev_map[symmetric] sorted_wrt_rev)
qed

lemma latestRows_sorted:
  assumes "distinct (map ID rows)"
  shows "sorted_wrt (>) (map ID (latestRows rows))"
  unfolding latestRows_def
  by (rule orderByIdDesc_sorted) (use assms in \<open>simp add: distinct_map_filter\<close>)

lemma latestRows_distinct_words:
  assumes "distinct (map ID rows)"
  shows "distinct (map Word (latestRows rows))"
proof -
  have d: "distinct (latestRows rows)"
    using latestRows_sorted[OF assms] by (metis distinct_map strict_sorted_iff sorted_wrt_rev distinct_rev rev_map)
  have "inj_on Word (set (latestRows rows))"
  proof (rule inj_onI)
    fix x y assume x: "x \<in> set (latestRows rows)" and y: "y \<in> set (latestRows rows)"
      and w: "Word x = Word y"
    from x y w show "x = y" using latestRows_GetByWord[OF assms] by (metis option.inject)
  qed
  with d show ?thesis by (simp add: distinct_map)
qed

text \<open>
  Claim C7.  In a table whose identifiers are pairwise different (they are the primary
  key), let \<open>live\<close> be the rows that hold the largest identifier of their keyword and a
  URL, by descending identifier.  The service's \<^verbatim>\<open>GetAllKeywords\<close> returns the first three
  columns of these rows, in this order; no two of them have the same keyword; each is what
  the lookup of its keyword returns; their identifiers descend; and a keyword with a
  shortcut is among them exactly when the link of the shortcut that the lookup returns is
  a URL.
\<close>

theorem live_mappings:
  fixes db :: DB
  defines "rows \<equiv> linktable db"
  defines "live \<equiv> filter (\<lambda>r. isURL (Link r)) (latestRows rows)"
  assumes ids: "distinct (map ID rows)"
  shows "GetAllKeywords dbGetAllKeywords db = (Inr (map toKeywordInfo live), db)
     \<and> map KeywordWord (map toKeywordInfo live) = map Word live
     \<and> distinct (map Word live)
     \<and> (\<forall>r \<in> set live. ShortcutRepository_GetByWord rows (Word r) = Some r)
     \<and> sorted_wrt (>) (map ID live)
     \<and> (\<forall>k r. ShortcutRepository_GetByWord rows k = Some r \<longrightarrow>
           (k \<in> set (map Word live) \<longleftrightarrow> isURL (Link r)))"
proof (intro conjI)
  have "filter (\<lambda>keyword. isURL (KeywordLink keyword)) (map toKeywordInfo (latestRows rows)) =
        map toKeywordInfo live"
    by (simp add: live_def filter_map o_def toKeywordInfo_def)
  then show "GetAllKeywords dbGetAllKeywords db = (Inr (map toKeywordInfo live), db)"
    by (simp add: GetAllKeywords_def dbGetAllKeywords_def ShortcutRepository_GetAllKeywords_def rows_def)
  show "map KeywordWord (map toKeywordInfo live) = map Word live"
    by (simp add: toKeywordInfo_def)
  show "distinct (map Word live)"
    unfolding live_def using latestRows_distinct_words[OF ids] by (rule distinct_map_filter)
  show in_live: "\<forall>r \<in> set live. ShortcutRepository_GetByWord rows (Word r) = Some r"
    using latestRows_GetByWord[OF ids] by (simp add: live_def)
  show "sorted_wrt (>) (map ID live)"
    unfolding live_def using latestRows_sorted[OF ids] by (simp add: sorted_wrt_map sorted_wrt_filter)
  show "\<forall>k r. ShortcutRepository_GetByWord rows k = Some r \<longrightarrow>
           (k \<in> set (map Word live) \<longleftrightarrow> isURL (Link r))"
  proof (intro allI impI)
    fix k r assume g: "ShortcutRepository_GetByWord rows k = Some r"
    then have wk: "Word r = k" using GetByWord_Some by blast
    show "k \<in> set (map Word live) \<longleftrightarrow> isURL (Link r)"
    proof
      assume "k \<in> set (map Word live)"
      then obtain r' where r': "r' \<in> set live" "Word r' = k" by auto
      with in_live g have "r' = r" by auto
      with r' show "isURL (Link r)" by (simp add: live_def)
    next
      assume "isURL (Link r)"
      moreover have "r \<in> set (latestRows rows)"
        using g wk latestRows_GetByWord[OF ids, of r] by simp
      ultimately have "r \<in> set live" by (simp add: live_def)
      with wk show "k \<in> set (map Word live)" by force
    qed
  qed
qed


text \<open>The theorem at a table with a history of three keywords; \<^verbatim>\<open>c\<close>, whose newest
  row is an alias, is not listed although an older row of it holds a URL.\<close>

theorem live_mappings_witness:
  "distinct (map ID (linktable historyDB))
   \<and> GetAllKeywords dbGetAllKeywords historyDB =
       (Inr [\<lparr>KeywordWord = ''b'', KeywordLink = ''https://b.example.com'', KeywordCreatedAt = 5\<rparr>,
             \<lparr>KeywordWord = ''a'', KeywordLink = ''https://a.example.com/2'', KeywordCreatedAt = 3\<rparr>],
        historyDB)
   \<and> filter (\<lambda>r. isURL (Link r)) (latestRows (linktable historyDB)) =
       [\<lparr>ID = 5, Word = ''b'', Link = ''https://b.example.com'', User = ''u'', CreatedAt = 5\<rparr>,
        \<lparr>ID = 3, Word = ''a'', Link = ''https://a.example.com/2'', User = ''u'', CreatedAt = 3\<rparr>]
   \<and> ShortcutRepository_GetByWord (linktable historyDB) ''c'' =
       Some \<lparr>ID = 6, Word = ''c'', Link = ''a'', User = ''u'', CreatedAt = 6\<rparr>
   \<and> (''c'' \<in> set [''b'', ''a'']) =
       isURL (Link \<lparr>ID = 6, Word = ''c'', Link = ''a'', User = ''u'', CreatedAt = 6\<rparr>)"
proof -
  have h: "distinct (map ID (linktable historyDB))" by code_simp
  have e: "filter (\<lambda>r. isURL (Link r)) (latestRows (linktable historyDB)) =
       [\<lparr>ID = 5, Word = ''b'', Link = ''https://b.example.com'', User = ''u'', CreatedAt = 5\<rparr>,
        \<lparr>ID = 3, Word = ''a'', Link = ''https://a.example.com/2'', User = ''u'', CreatedAt = 3\<rparr>]"
    by code_simp
  have c: "ShortcutRepository_GetByWord (linktable historyDB) ''c'' =
       Some \<lparr>ID = 6, Word = ''c'', Link = ''a'', User = ''u'', CreatedAt = 6\<rparr>"
    by code_simp
  note t = live_mappings[where db = historyDB, OF h, unfolded e]
  from t c have "(''c'' \<in> set (map Word
        [\<lparr>ID = 5, Word = ''b'', Link = ''https://b.example.com'', User = ''u'', CreatedAt = 5\<rparr>,
         \<lparr>ID = 3, Word = ''a'', Link = ''https://a.example.com/2'', User = ''u'', CreatedAt = 3\<rparr>])) =
       isURL (Link \<lparr>ID = 6, Word = ''c'', Link = ''a'', User = ''u'', CreatedAt = 6\<rparr>)"
    by blast
  then show ?thesis using t h e c by (simp add: toKeywordInfo_def)
qed

subsection \<open>The usage log\<close>

lemma traceGetByWord_apply:
  "traceGetByWord getByWord (w, log) k =
     (fst (getByWord w k), (snd (getByWord w k), log @ [GetByWordCall k (fst (getByWord w k))]))"
  by (simp add: traceGetByWord_def case_prod_beta)

lemma traceCreateQuery_apply:
  "traceCreateQuery createQuery (w, log) i =
     (fst (createQuery w i), (snd (createQuery w i), log @ [CreateQueryCall i (fst (createQuery w i))]))"
  by (simp add: traceCreateQuery_def case_prod_beta)

lemma usageMatches_miss [simp]: "usageMatches (GetByWordCall k (Inr None) # cs) = usageMatches cs"
  by (cases cs) simp_all

lemma usageMatches_error [simp]: "usageMatches (GetByWordCall k (Inl e) # cs) = usageMatches cs"
  by (cases cs) simp_all

lemma traced_calls:
  assumes "GetLink getByWord' createQuery' ww word tail = Some y"
  shows "\<forall>getByWord createQuery w log0.
           getByWord' = traceGetByWord getByWord \<and> createQuery' = traceCreateQuery createQuery \<and>
           ww = (w, log0) \<longrightarrow>
           (\<exists>calls. snd (snd y) = log0 @ calls \<and> usageMatches calls)"
  using assms
proof (induction rule: GetLink.raw_induct[rotated 1, consumes 1])
  case (1 G getByWord' createQuery' ww word searchTerm y)
  show ?case
  proof (intro allI impI)
    fix getByWord :: "'a getByWord" and createQuery :: "'a createQuery" and w log0
    assume eq: "getByWord' = traceGetByWord getByWord \<and> createQuery' = traceCreateQuery createQuery \<and>
           ww = (w, log0)"
    let ?k = "TrimSpace word"
    let ?res = "fst (getByWord w ?k)"
    let ?w1 = "snd (getByWord w ?k)"
    let ?c = "GetByWordCall ?k ?res"
    have look: "getByWord' ww ?k = (?res, (?w1, log0 @ [?c]))"
      using eq by (simp add: traceGetByWord_apply)
    show "\<exists>calls. snd (snd y) = log0 @ calls \<and> usageMatches calls"
    proof (cases ?res)
      case (Inl err)
      with look 1(2) have "snd (snd y) = log0 @ [?c]" by (auto simp: Let_def)
      moreover have "usageMatches [?c]" using Inl by simp
      ultimately show ?thesis by blast
    next
      case (Inr found)
      show ?thesis
      proof (cases found)
        case None
        show ?thesis
        proof (cases "Contains ?k '' ''")
          case True
          with None Inr look 1(2) have
            "G getByWord' createQuery' (?w1, log0 @ [?c]) (fst (moveLastWord ?k searchTerm))
               (snd (moveLastWord ?k searchTerm)) = Some y"
            by (simp add: Let_def case_prod_beta)
          from 1(1)[OF this] eq obtain calls where
            "snd (snd y) = (log0 @ [?c]) @ calls" "usageMatches calls" by blast
          then have "snd (snd y) = log0 @ (?c # calls) \<and> usageMatches (?c # calls)"
            using None Inr by simp
          then show ?thesis by blast
        next
          case False
          with None Inr look 1(2) have "snd (snd y) = log0 @ [?c]" by (auto simp: Let_def)
          moreover have "usageMatches [?c]" using None Inr by simp
          ultimately show ?thesis by blast
        qed
      next
        case (Some shortcut)
        let ?e = "fst (createQuery ?w1 (ID shortcut))"
        let ?w2 = "snd (createQuery ?w1 (ID shortcut))"
        let ?c2 = "CreateQueryCall (ID shortcut) ?e"
        have rec: "createQuery' (?w1, log0 @ [?c]) (ID shortcut) = (?e, (?w2, (log0 @ [?c]) @ [?c2]))"
          using eq by (simp add: traceCreateQuery_apply)
        have m: "\<And>cs. usageMatches (?c # ?c2 # cs) = usageMatches cs"
          using Some Inr by simp
        show ?thesis
        proof (cases "isURL (Link shortcut)")
          case True
          with Some Inr look rec 1(2) have "snd (snd y) = log0 @ [?c, ?c2]"
            by (auto simp: Let_def)
          moreover have "usageMatches [?c, ?c2]" using m[of "[]"] by simp
          ultimately show ?thesis by blast
        next
          case False
          with Some Inr look rec 1(2) have
            "G getByWord' createQuery' (?w2, (log0 @ [?c]) @ [?c2]) (Link shortcut) searchTerm = Some y"
            by (simp add: Let_def)
          from 1(1)[OF this] eq obtain calls where
            "snd (snd y) = ((log0 @ [?c]) @ [?c2]) @ calls" "usageMatches calls" by blast
          then have "snd (snd y) = log0 @ (?c # ?c2 # calls) \<and> usageMatches (?c # ?c2 # calls)"
            using m by simp
          then show ?thesis by blast
        qed
      qed
    qed
  qed
qed


lemma onStore_apply:
  "onStore getByWord (s, q) k = (fst (getByWord s k), (snd (getByWord s k), q))"
  by (simp add: onStore_def case_prod_beta)

lemma onLog_apply:
  "onLog createQuery (s, q) i = (fst (createQuery q i), (s, snd (createQuery q i)))"
  by (simp add: onLog_def case_prod_beta)

lemma log_irrelevant_step:
  fixes createQuery2 :: "'q2 createQuery" and getByWord' :: "('s \<times> 'q1) getByWord"
  assumes "GetLink getByWord' createQuery' ww word tail = Some y"
  shows "\<forall>getByWord createQuery1 s q1 (q2 :: 'q2).
           getByWord' = onStore getByWord \<and> createQuery' = onLog createQuery1 \<and> ww = (s, q1) \<longrightarrow>
           (\<exists>q2'. GetLink (onStore getByWord) (onLog createQuery2) (s, q2) word tail =
                     Some (fst y, (fst (snd y), q2')))"
  using assms
proof (induction rule: GetLink.raw_induct[rotated 1, consumes 1])
  case (1 G getByWord' createQuery' ww word searchTerm y)
  show ?case
  proof (intro allI impI)
    fix getByWord :: "'s getByWord" and createQuery1 :: "'q1 createQuery" and s q1 and q2 :: 'q2
    assume eq: "getByWord' = onStore getByWord \<and> createQuery' = onLog createQuery1 \<and> ww = (s, q1)"
    let ?k = "TrimSpace word"
    let ?res = "fst (getByWord s ?k)"
    let ?s1 = "snd (getByWord s ?k)"
    let ?R = "GetLink (onStore getByWord) (onLog createQuery2)"
    have look1: "getByWord' ww ?k = (?res, (?s1, q1))"
      using eq by (simp add: onStore_apply)
    have look2: "onStore getByWord (s, q2) ?k = (?res, (?s1, q2))"
      by (simp add: onStore_apply)
    show "\<exists>q2'. ?R (s, q2) word searchTerm = Some (fst y, (fst (snd y), q2'))"
    proof (cases ?res)
      case (Inl err)
      with look1 1(2) have "y = (Inl (Errorf ''failed to get shortcut'' err), (?s1, q1))"
        by (auto simp: Let_def)
      moreover have "?R (s, q2) word searchTerm = Some (Inl (Errorf ''failed to get shortcut'' err), (?s1, q2))"
        using look2 Inl by (simp add: GetLink_lookup_error)
      ultimately show ?thesis by simp
    next
      case (Inr found)
      show ?thesis
      proof (cases found)
        case None
        show ?thesis
        proof (cases "Contains ?k '' ''")
          case True
          with None Inr look1 1(2) have
            "G getByWord' createQuery' (?s1, q1) (fst (moveLastWord ?k searchTerm))
               (snd (moveLastWord ?k searchTerm)) = Some y"
            by (simp add: Let_def case_prod_beta)
          from 1(1)[OF this] eq obtain q2' where
            "?R (?s1, q2) (fst (moveLastWord ?k searchTerm)) (snd (moveLastWord ?k searchTerm)) =
               Some (fst y, (fst (snd y), q2'))"
            by blast
          moreover have "?R (s, q2) word searchTerm =
              ?R (?s1, q2) (fst (moveLastWord ?k searchTerm)) (snd (moveLastWord ?k searchTerm))"
            using look2 None Inr True by (simp add: GetLink_miss_split)
          ultimately show ?thesis by simp
        next
          case False
          with None Inr look1 1(2) have
            "y = (Inl (InvalidQueryError (''Unable to find link for query '' @ ?k @ '' '' @ searchTerm)),
                  (?s1, q1))"
            by (auto simp: Let_def)
          moreover have "?R (s, q2) word searchTerm =
               Some (Inl (InvalidQueryError (''Unable to find link for query '' @ ?k @ '' '' @ searchTerm)),
                     (?s1, q2))"
            using look2 None Inr False by (simp add: GetLink_miss_fail)
          ultimately show ?thesis by simp
        qed
      next
        case (Some shortcut)
        let ?q1' = "snd (createQuery1 q1 (ID shortcut))"
        let ?q2' = "snd (createQuery2 q2 (ID shortcut))"
        have rec1: "createQuery' (?s1, q1) (ID shortcut) = (fst (createQuery1 q1 (ID shortcut)), (?s1, ?q1'))"
          using eq by (simp add: onLog_apply)
        have rec2: "snd (onLog createQuery2 (?s1, q2) (ID shortcut)) = (?s1, ?q2')"
          by (simp add: onLog_apply)
        show ?thesis
        proof (cases "isURL (Link shortcut)")
          case True
          with Some Inr look1 rec1 1(2) have
            "y = (Inr (processResultLink (Link shortcut) searchTerm), (?s1, ?q1'))"
            by (auto simp: Let_def)
          moreover have "?R (s, q2) word searchTerm =
               Some (Inr (processResultLink (Link shortcut) searchTerm), (?s1, ?q2'))"
            using look2 Some Inr True rec2 by (simp add: GetLink_hit_url)
          ultimately show ?thesis by simp
        next
          case False
          with Some Inr look1 rec1 1(2) have
            "G getByWord' createQuery' (?s1, ?q1') (Link shortcut) searchTerm = Some y"
            by (simp add: Let_def)
          from 1(1)[OF this] eq obtain q2' where
            "?R (?s1, ?q2') (Link shortcut) searchTerm = Some (fst y, (fst (snd y), q2'))"
            by blast
          moreover have "?R (s, q2) word searchTerm = ?R (?s1, ?q2') (Link shortcut) searchTerm"
            using look2 Some Inr False rec2 by (simp add: GetLink_hit_alias)
          ultimately show ?thesis by simp
        qed
      qed
    qed
  qed
qed

lemma log_irrelevant:
  "map_option (\<lambda>y. (fst y, fst (snd y))) (GetLink (onStore getByWord) (onLog createQuery1) (s, q1) word tail) =
   map_option (\<lambda>y. (fst y, fst (snd y))) (GetLink (onStore getByWord) (onLog createQuery2) (s, q2) word tail)"
proof (cases "GetLink (onStore getByWord) (onLog createQuery1) (s, q1) word tail")
  case (Some y)
  from log_irrelevant_step[OF this, of createQuery2] obtain q2' where
    "GetLink (onStore getByWord) (onLog createQuery2) (s, q2) word tail = Some (fst y, (fst (snd y), q2'))"
    by blast
  with Some show ?thesis by simp
next
  case None
  show ?thesis
  proof (cases "GetLink (onStore getByWord) (onLog createQuery2) (s, q2) word tail")
    case N2: None
    with None show ?thesis by simp
  next
    case (Some y)
    from log_irrelevant_step[OF this, of createQuery1] obtain q1' where
      "GetLink (onStore getByWord) (onLog createQuery1) (s, q1) word tail = Some (fst y, (fst (snd y), q1'))"
      by blast
    with None show ?thesis by simp
  qed
qed

lemma traced_hit:
  assumes "getByWord w (TrimSpace word) = (Inr (Some shortcut), w1)"
  shows "GetLink (traceGetByWord getByWord) (traceCreateQuery createQuery) (w, log0) word tail =
        (if isURL (Link shortcut)
         then Some (Inr (processResultLink (Link shortcut) tail),
                    (snd (createQuery w1 (ID shortcut)),
                     log0 @ [GetByWordCall (TrimSpace word) (Inr (Some shortcut)),
                             CreateQueryCall (ID shortcut) (fst (createQuery w1 (ID shortcut)))]))
         else GetLink (traceGetByWord getByWord) (traceCreateQuery createQuery)
                (snd (createQuery w1 (ID shortcut)),
                 log0 @ [GetByWordCall (TrimSpace word) (Inr (Some shortcut)),
                         CreateQueryCall (ID shortcut) (fst (createQuery w1 (ID shortcut)))])
                (Link shortcut) tail)"
proof -
  let ?c = "GetByWordCall (TrimSpace word) (Inr (Some shortcut))"
  have look: "traceGetByWord getByWord (w, log0) (TrimSpace word) =
      (Inr (Some shortcut), (w1, log0 @ [?c]))"
    using assms by (simp add: traceGetByWord_apply)
  have rec: "snd (traceCreateQuery createQuery (w1, log0 @ [?c]) (ID shortcut)) =
      (snd (createQuery w1 (ID shortcut)),
       log0 @ [?c, CreateQueryCall (ID shortcut) (fst (createQuery w1 (ID shortcut)))])"
    by (simp add: traceCreateQuery_apply)
  show ?thesis
  proof (cases "isURL (Link shortcut)")
    case True
    then show ?thesis using look rec by (simp add: GetLink_hit_url)
  next
    case False
    then show ?thesis using look rec by (simp add: GetLink_hit_alias)
  qed
qed

lemma traced_no_hit:
  assumes "getByWord w (TrimSpace word) = (r, w1)" and "\<forall>shortcut. r \<noteq> Inr (Some shortcut)"
  shows "GetLink (traceGetByWord getByWord) (traceCreateQuery createQuery) (w, log0) word tail =
        (case r of
           Inl err \<Rightarrow> Some (Inl (Errorf ''failed to get shortcut'' err),
                            (w1, log0 @ [GetByWordCall (TrimSpace word) r]))
         | Inr found \<Rightarrow>
             if Contains (TrimSpace word) '' ''
             then GetLink (traceGetByWord getByWord) (traceCreateQuery createQuery)
                    (w1, log0 @ [GetByWordCall (TrimSpace word) r])
                    (fst (moveLastWord (TrimSpace word) tail))
                    (snd (moveLastWord (TrimSpace word) tail))
             else Some (Inl (InvalidQueryError
                          (''Unable to find link for query '' @ TrimSpace word @ '' '' @ tail)),
                        (w1, log0 @ [GetByWordCall (TrimSpace word) r])))"
proof -
  have look: "traceGetByWord getByWord (w, log0) (TrimSpace word) =
      (r, (w1, log0 @ [GetByWordCall (TrimSpace word) r]))"
    using assms(1) by (simp add: traceGetByWord_apply)
  show ?thesis
  proof (cases r)
    case (Inl err)
    then show ?thesis using look by (simp add: GetLink_lookup_error)
  next
    case (Inr found)
    with assms(2) have n: "r = Inr None" by (cases found) simp_all
    show ?thesis
    proof (cases "Contains (TrimSpace word) '' ''")
      case True
      then show ?thesis using look n by (simp add: GetLink_miss_split)
    next
      case False
      then show ?thesis using look n by (simp add: GetLink_miss_fail)
    qed
  qed
qed

lemma chain_run:
  fixes getByWord :: "'w getByWord" and createQuery :: "'w createQuery" and P :: "'w \<Rightarrow> bool"
  assumes ro: "\<And>w k. P w \<Longrightarrow>
      fst (getByWord w k) = Inr (ShortcutRepository_GetByWord rows k) \<and> P (snd (getByWord w k))"
    and lg: "\<And>w i. P w \<Longrightarrow> P (snd (createQuery w i))"
  shows "aliasChain rows word scs \<Longrightarrow> P w \<Longrightarrow>
     \<exists>w' calls.
       GetLink (traceGetByWord getByWord) (traceCreateQuery createQuery) (w, log0) word tail =
         Some (Inr (processResultLink (Link (last scs)) tail), (w', log0 @ calls))
       \<and> P w' \<and> usageMatches calls \<and> hits calls = scs \<and> recorded calls = map ID scs
       \<and> length calls = 2 * length scs"
proof (induction scs arbitrary: word w log0)
  case Nil
  then show ?case by simp
next
  case (Cons sc rest)
  let ?G = "GetLink (traceGetByWord getByWord) (traceCreateQuery createQuery)"
  let ?k = "TrimSpace word"
  let ?w1 = "snd (getByWord w ?k)"
  let ?c = "GetByWordCall ?k (Inr (Some sc))"
  let ?w2 = "snd (createQuery ?w1 (ID sc))"
  let ?c2 = "CreateQueryCall (ID sc) (fst (createQuery ?w1 (ID sc)))"
  have found: "ShortcutRepository_GetByWord rows ?k = Some sc"
    using Cons.prems(1) by (cases rest) simp_all
  have look: "getByWord w ?k = (Inr (Some sc), ?w1)"
    using ro[OF Cons.prems(2), of ?k] found by (simp add: prod_eq_iff)
  have p2: "P ?w2" using ro[OF Cons.prems(2), of ?k] lg by simp
  have m: "\<And>cs. usageMatches (?c # ?c2 # cs) = usageMatches cs" by simp
  note step = traced_hit[where getByWord = getByWord and w = w and word = word and shortcut = sc
      and ?w1.0 = ?w1 and createQuery = createQuery and ?log0.0 = log0 and tail = tail, OF look]
  show ?case
  proof (cases rest)
    case Nil
    with Cons.prems(1) have url: "isURL (Link sc)" by simp
    have "?G (w, log0) word tail =
        Some (Inr (processResultLink (Link (last (sc # rest))) tail), (?w2, log0 @ [?c, ?c2]))"
      using step url Nil by simp
    moreover have "usageMatches [?c, ?c2] \<and> hits [?c, ?c2] = sc # rest
        \<and> recorded [?c, ?c2] = map ID (sc # rest) \<and> length [?c, ?c2] = 2 * length (sc # rest)"
      using Nil by simp
    ultimately show ?thesis using p2 by blast
  next
    case (Cons sc2 rest')
    with Cons.prems(1) have nourl: "\<not> isURL (Link sc)" and rest: "aliasChain rows (Link sc) rest"
      by simp_all
    from Cons.IH[OF rest p2, of "log0 @ [?c, ?c2]"] obtain w' calls where ih:
      "?G (?w2, log0 @ [?c, ?c2]) (Link sc) tail =
         Some (Inr (processResultLink (Link (last rest)) tail), (w', (log0 @ [?c, ?c2]) @ calls))"
      "P w'" "usageMatches calls" "hits calls = rest" "recorded calls = map ID rest"
      "length calls = 2 * length rest"
      by blast
    have "?G (w, log0) word tail =
        Some (Inr (processResultLink (Link (last (sc # rest))) tail), (w', log0 @ (?c # ?c2 # calls)))"
      using step nourl ih(1) Cons by simp
    moreover have "usageMatches (?c # ?c2 # calls) \<and> hits (?c # ?c2 # calls) = sc # rest
        \<and> recorded (?c # ?c2 # calls) = map ID (sc # rest)
        \<and> length (?c # ?c2 # calls) = 2 * length (sc # rest)"
      using ih(3,4,5,6) by simp
    ultimately show ?thesis using ih(2) by blast
  qed
qed

lemma chain_separate_log:
  assumes "aliasChain (linktable db) word scs"
  shows "\<exists>q' calls.
       GetLink (traceGetByWord (onStore dbGetByWord)) (traceCreateQuery (onLog createQuery1))
           ((db, q1), log0) word tail =
         Some (Inr (processResultLink (Link (last scs)) tail), ((db, q'), log0 @ calls))
       \<and> usageMatches calls \<and> hits calls = scs \<and> recorded calls = map ID scs
       \<and> length calls = 2 * length scs"
proof -
  have "\<exists>w' calls.
       GetLink (traceGetByWord (onStore dbGetByWord)) (traceCreateQuery (onLog createQuery1))
           ((db, q1), log0) word tail =
         Some (Inr (processResultLink (Link (last scs)) tail), (w', log0 @ calls))
       \<and> fst w' = db \<and> usageMatches calls \<and> hits calls = scs \<and> recorded calls = map ID scs
       \<and> length calls = 2 * length scs"
    by (rule chain_run[where P = "\<lambda>x. fst x = db" and rows = "linktable db", OF _ _ assms])
       (auto simp: onStore_apply onLog_apply dbGetByWord_def)
  then obtain w' calls where h:
    "GetLink (traceGetByWord (onStore dbGetByWord)) (traceCreateQuery (onLog createQuery1))
           ((db, q1), log0) word tail =
         Some (Inr (processResultLink (Link (last scs)) tail), (w', log0 @ calls))"
    "fst w' = db" "usageMatches calls \<and> hits calls = scs \<and> recorded calls = map ID scs
       \<and> length calls = 2 * length scs"
    by blast
  from h(2) have "w' = (db, snd w')" by (simp add: prod_eq_iff)
  with h(1) have "GetLink (traceGetByWord (onStore dbGetByWord)) (traceCreateQuery (onLog createQuery1))
           ((db, q1), log0) word tail =
         Some (Inr (processResultLink (Link (last scs)) tail), ((db, snd w'), log0 @ calls))"
    by simp
  with h(3) show ?thesis by blast
qed

lemma chain_database:
  assumes "aliasChain (linktable db) word scs"
  shows "\<exists>db' calls.
       GetLink (traceGetByWord dbGetByWord) (traceCreateQuery (QueryRepository_Create now))
           (db, log0) word tail =
         Some (Inr (processResultLink (Link (last scs)) tail), (db', log0 @ calls))
       \<and> linktable db' = linktable db
       \<and> usageMatches calls \<and> hits calls = scs \<and> recorded calls = map ID scs
       \<and> length calls = 2 * length scs"
  by (rule chain_run[where P = "\<lambda>x. linktable x = linktable db" and rows = "linktable db",
        OF _ _ assms])
     (auto simp: dbGetByWord_def QueryRepository_Create_def)

text \<open>
  Claim C8.  First conjunct: a lookup that returns a shortcut is followed at once by one
  call of the usage log for that shortcut's identifier, and whatever that call returns,
  \<^verbatim>\<open>GetLink\<close> returns the destination when the link is a URL, and goes on with the link
  when it is an alias.  Second conjunct: a lookup that returns no shortcut is followed by
  no call of the usage log.  Third conjunct: so in the calls that a run which returns has
  made, every lookup that returned a shortcut, an alias or a URL, is followed at once by
  one call of the usage log for that shortcut's identifier, and the usage log is called
  nowhere else.  Fourth conjunct: over a keyword store and a usage log that share no
  state, the result of \<^verbatim>\<open>GetLink\<close> (the destination or the error, or that the call does
  not return) and the store's state do not depend on the usage log: any two logs,
  failing or not, give the same.  Fifth conjunct: along a chain of aliases of any length
  in the table, with any usage log, failing or not, \<^verbatim>\<open>GetLink\<close> returns, its result is
  the destination that the last shortcut gives, the lookups returned the shortcuts of
  the chain, and the usage log was called once after each of them, with its identifier.
  Sixth conjunct: the same with the usage log of the database, which leaves the table
  of shortcuts as it is.  Seventh conjunct: a hit on a URL whose usage record fails
  returns the destination.
\<close>

theorem usage_logging:
  "(getByWord w (TrimSpace word) = (Inr (Some shortcut), w1) \<longrightarrow>
      GetLink (traceGetByWord getByWord) (traceCreateQuery createQuery) (w, log0) word tail =
        (if isURL (Link shortcut)
         then Some (Inr (processResultLink (Link shortcut) tail),
                    (snd (createQuery w1 (ID shortcut)),
                     log0 @ [GetByWordCall (TrimSpace word) (Inr (Some shortcut)),
                             CreateQueryCall (ID shortcut) (fst (createQuery w1 (ID shortcut)))]))
         else GetLink (traceGetByWord getByWord) (traceCreateQuery createQuery)
                (snd (createQuery w1 (ID shortcut)),
                 log0 @ [GetByWordCall (TrimSpace word) (Inr (Some shortcut)),
                         CreateQueryCall (ID shortcut) (fst (createQuery w1 (ID shortcut)))])
                (Link shortcut) tail))
   \<and> (getByWord w (TrimSpace word) = (res, w1) \<and> (\<forall>found. res \<noteq> Inr (Some found)) \<longrightarrow>
        GetLink (traceGetByWord getByWord) (traceCreateQuery createQuery) (w, log0) word tail =
          (case res of
             Inl err \<Rightarrow> Some (Inl (Errorf ''failed to get shortcut'' err),
                              (w1, log0 @ [GetByWordCall (TrimSpace word) res]))
           | Inr found \<Rightarrow>
               if Contains (TrimSpace word) '' ''
               then GetLink (traceGetByWord getByWord) (traceCreateQuery createQuery)
                      (w1, log0 @ [GetByWordCall (TrimSpace word) res])
                      (fst (moveLastWord (TrimSpace word) tail))
                      (snd (moveLastWord (TrimSpace word) tail))
               else Some (Inl (InvalidQueryError
                            (''Unable to find link for query '' @ TrimSpace word @ '' '' @ tail)),
                          (w1, log0 @ [GetByWordCall (TrimSpace word) res]))))
   \<and> (GetLink (traceGetByWord getByWord) (traceCreateQuery createQuery) (w, log0) word tail =
        Some (r, (w', log)) \<longrightarrow>
        (\<exists>calls. log = log0 @ calls \<and> usageMatches calls))
   \<and> map_option (\<lambda>y. (fst y, fst (snd y)))
         (GetLink (onStore storeGetByWord) (onLog createQuery1) (s, q1) word tail) =
       map_option (\<lambda>y. (fst y, fst (snd y)))
         (GetLink (onStore storeGetByWord) (onLog createQuery2) (s, q2) word tail)
   \<and> (aliasChain (linktable db) word scs \<longrightarrow>
        (\<exists>q' calls.
           GetLink (traceGetByWord (onStore dbGetByWord)) (traceCreateQuery (onLog createQuery1))
               ((db, q1), log0) word tail =
             Some (Inr (processResultLink (Link (last scs)) tail), ((db, q'), log0 @ calls))
           \<and> usageMatches calls \<and> hits calls = scs \<and> recorded calls = map ID scs
           \<and> length calls = 2 * length scs))
   \<and> (aliasChain (linktable db) word scs \<longrightarrow>
        (\<exists>db' calls.
           GetLink (traceGetByWord dbGetByWord) (traceCreateQuery (QueryRepository_Create now))
               (db, log0) word tail =
             Some (Inr (processResultLink (Link (last scs)) tail), (db', log0 @ calls))
           \<and> linktable db' = linktable db
           \<and> usageMatches calls \<and> hits calls = scs \<and> recorded calls = map ID scs
           \<and> length calls = 2 * length scs))
   \<and> (storeGetByWord s (TrimSpace word) = (Inr (Some shortcut), s1) \<and> isURL (Link shortcut) \<and>
       fst (createQuery1 q1 (ID shortcut)) = Some err \<longrightarrow>
         GetLink (onStore storeGetByWord) (onLog createQuery1) (s, q1) word tail =
           Some (Inr (processResultLink (Link shortcut) tail),
                 (s1, snd (createQuery1 q1 (ID shortcut)))))"
proof (intro conjI impI)
  assume "getByWord w (TrimSpace word) = (Inr (Some shortcut), w1)"
  then show "GetLink (traceGetByWord getByWord) (traceCreateQuery createQuery) (w, log0) word tail =
        (if isURL (Link shortcut)
         then Some (Inr (processResultLink (Link shortcut) tail),
                    (snd (createQuery w1 (ID shortcut)),
                     log0 @ [GetByWordCall (TrimSpace word) (Inr (Some shortcut)),
                             CreateQueryCall (ID shortcut) (fst (createQuery w1 (ID shortcut)))]))
         else GetLink (traceGetByWord getByWord) (traceCreateQuery createQuery)
                (snd (createQuery w1 (ID shortcut)),
                 log0 @ [GetByWordCall (TrimSpace word) (Inr (Some shortcut)),
                         CreateQueryCall (ID shortcut) (fst (createQuery w1 (ID shortcut)))])
                (Link shortcut) tail)"
    by (rule traced_hit)
next
  assume a: "getByWord w (TrimSpace word) = (res, w1) \<and> (\<forall>found. res \<noteq> Inr (Some found))"
  show "GetLink (traceGetByWord getByWord) (traceCreateQuery createQuery) (w, log0) word tail =
          (case res of
             Inl err \<Rightarrow> Some (Inl (Errorf ''failed to get shortcut'' err),
                              (w1, log0 @ [GetByWordCall (TrimSpace word) res]))
           | Inr found \<Rightarrow>
               if Contains (TrimSpace word) '' ''
               then GetLink (traceGetByWord getByWord) (traceCreateQuery createQuery)
                      (w1, log0 @ [GetByWordCall (TrimSpace word) res])
                      (fst (moveLastWord (TrimSpace word) tail))
                      (snd (moveLastWord (TrimSpace word) tail))
               else Some (Inl (InvalidQueryError
                            (''Unable to find link for query '' @ TrimSpace word @ '' '' @ tail)),
                          (w1, log0 @ [GetByWordCall (TrimSpace word) res])))"
    by (rule traced_no_hit) (use a in simp_all)
next
  assume "GetLink (traceGetByWord getByWord) (traceCreateQuery createQuery) (w, log0) word tail =
      Some (r, (w', log))"
  from traced_calls[OF this, THEN spec, THEN spec, THEN spec, THEN spec,
      of getByWord createQuery w log0]
  show "\<exists>calls. log = log0 @ calls \<and> usageMatches calls"
    by simp
next
  show "map_option (\<lambda>y. (fst y, fst (snd y)))
         (GetLink (onStore storeGetByWord) (onLog createQuery1) (s, q1) word tail) =
       map_option (\<lambda>y. (fst y, fst (snd y)))
         (GetLink (onStore storeGetByWord) (onLog createQuery2) (s, q2) word tail)"
    by (rule log_irrelevant)
next
  assume "aliasChain (linktable db) word scs"
  then show "\<exists>q' calls.
           GetLink (traceGetByWord (onStore dbGetByWord)) (traceCreateQuery (onLog createQuery1))
               ((db, q1), log0) word tail =
             Some (Inr (processResultLink (Link (last scs)) tail), ((db, q'), log0 @ calls))
           \<and> usageMatches calls \<and> hits calls = scs \<and> recorded calls = map ID scs
           \<and> length calls = 2 * length scs"
    by (rule chain_separate_log)
next
  assume "aliasChain (linktable db) word scs"
  then show "\<exists>db' calls.
           GetLink (traceGetByWord dbGetByWord) (traceCreateQuery (QueryRepository_Create now))
               (db, log0) word tail =
             Some (Inr (processResultLink (Link (last scs)) tail), (db', log0 @ calls))
           \<and> linktable db' = linktable db
           \<and> usageMatches calls \<and> hits calls = scs \<and> recorded calls = map ID scs
           \<and> length calls = 2 * length scs"
    by (rule chain_database)
next
  assume "storeGetByWord s (TrimSpace word) = (Inr (Some shortcut), s1) \<and> isURL (Link shortcut) \<and>
       fst (createQuery1 q1 (ID shortcut)) = Some err"
  then have "onStore storeGetByWord (s, q1) (TrimSpace word) = (Inr (Some shortcut), (s1, q1))"
    and "isURL (Link shortcut)"
    by (simp_all add: onStore_apply)
  then show "GetLink (onStore storeGetByWord) (onLog createQuery1) (s, q1) word tail =
           Some (Inr (processResultLink (Link shortcut) tail),
                 (s1, snd (createQuery1 q1 (ID shortcut))))"
    by (simp add: GetLink_hit_url onLog_apply)
qed

text \<open>The theorem at the chain of the tests, \<^verbatim>\<open>d\<close> to \<^verbatim>\<open>docs\<close> to a URL: the calls of
  the run, with the usage log of the database, with one that always fails and with one
  that records; and at a word without a shortcut.\<close>

theorem usage_logging_witness:
  "GetLink (traceGetByWord dbGetByWord) (traceCreateQuery (QueryRepository_Create 0)) (chainDB, [])
       ''d'' [] =
     Some (Inr ''https://docs.example.com'',
           (chainDB\<lparr>queries := [\<lparr>QueryID = 1, WordID = 1, QueryCreatedAt = 0\<rparr>,
                                  \<lparr>QueryID = 2, WordID = 2, QueryCreatedAt = 0\<rparr>]\<rparr>,
            [GetByWordCall ''d'' (Inr (Some aliasRow)), CreateQueryCall 1 None,
             GetByWordCall ''docs'' (Inr (Some docsRow)), CreateQueryCall 2 None]))
   \<and> (\<exists>calls. [GetByWordCall ''d'' (Inr (Some aliasRow)), CreateQueryCall 1 None,
                 GetByWordCall ''docs'' (Inr (Some docsRow)), CreateQueryCall 2 None] = [] @ calls
               \<and> usageMatches calls)
   \<and> onStore dbGetByWord (chainDB, [] :: int list) (TrimSpace ''d'') =
       (Inr (Some aliasRow), (chainDB, []))
   \<and> GetLink (traceGetByWord (onStore dbGetByWord)) (traceCreateQuery (onLog failingLog))
         ((chainDB, []), []) ''d'' [] =
       (if isURL (Link aliasRow)
        then Some (Inr (processResultLink (Link aliasRow) []),
                   (snd (onLog failingLog (chainDB, []) (ID aliasRow)),
                    [] @ [GetByWordCall (TrimSpace ''d'') (Inr (Some aliasRow)),
                          CreateQueryCall (ID aliasRow)
                            (fst (onLog failingLog (chainDB, []) (ID aliasRow)))]))
        else GetLink (traceGetByWord (onStore dbGetByWord)) (traceCreateQuery (onLog failingLog))
               (snd (onLog failingLog (chainDB, []) (ID aliasRow)),
                [] @ [GetByWordCall (TrimSpace ''d'') (Inr (Some aliasRow)),
                      CreateQueryCall (ID aliasRow)
                        (fst (onLog failingLog (chainDB, []) (ID aliasRow)))])
               (Link aliasRow) [])
   \<and> \<not> isURL (Link aliasRow)
   \<and> snd (onLog failingLog (chainDB, []) (ID aliasRow)) = (chainDB, [])
   \<and> fst (onLog failingLog (chainDB, []) (ID aliasRow)) = Some (StorageError ''database is closed'')
   \<and> dbGetByWord chainDB (TrimSpace ''nothing'') = (Inr None, chainDB)
   \<and> (\<forall>found. (Inr None :: error + Shortcut option) \<noteq> Inr (Some found))
   \<and> GetLink (traceGetByWord dbGetByWord) (traceCreateQuery (QueryRepository_Create 0)) (chainDB, [])
         ''nothing'' [] =
       Some (Inl (InvalidQueryError ''Unable to find link for query nothing ''),
             (chainDB, [GetByWordCall ''nothing'' (Inr None)]))
   \<and> map_option (\<lambda>y. (fst y, fst (snd y)))
         (GetLink (onStore dbGetByWord) (onLog failingLog) (chainDB, []) ''d'' []) =
       map_option (\<lambda>y. (fst y, fst (snd y)))
         (GetLink (onStore dbGetByWord) (onLog recordingLog) (chainDB, []) ''d'' [])
   \<and> GetLink (onStore dbGetByWord) (onLog recordingLog) (chainDB, []) ''d'' [] =
       Some (Inr ''https://docs.example.com'', (chainDB, [1, 2]))
   \<and> GetLink (onStore dbGetByWord) (onLog failingLog) (chainDB, []) ''d'' [] =
       Some (Inr ''https://docs.example.com'', (chainDB, []))
   \<and> aliasChain (linktable chainDB) ''d'' [aliasRow, docsRow]
   \<and> (\<exists>q' calls.
         GetLink (traceGetByWord (onStore dbGetByWord)) (traceCreateQuery (onLog failingLog))
             ((chainDB, []), []) ''d'' [] =
           Some (Inr (processResultLink (Link (last [aliasRow, docsRow])) []),
                 ((chainDB, q'), [] @ calls))
         \<and> usageMatches calls \<and> hits calls = [aliasRow, docsRow]
         \<and> recorded calls = map ID [aliasRow, docsRow]
         \<and> length calls = 2 * length [aliasRow, docsRow])
   \<and> GetLink (traceGetByWord (onStore dbGetByWord)) (traceCreateQuery (onLog failingLog))
         ((chainDB, []), []) ''d'' [] =
       Some (Inr ''https://docs.example.com'',
             ((chainDB, []),
              [GetByWordCall ''d'' (Inr (Some aliasRow)),
               CreateQueryCall 1 (Some (StorageError ''database is closed'')),
               GetByWordCall ''docs'' (Inr (Some docsRow)),
               CreateQueryCall 2 (Some (StorageError ''database is closed''))]))
   \<and> (\<exists>db' calls.
         GetLink (traceGetByWord dbGetByWord) (traceCreateQuery (QueryRepository_Create 0))
             (chainDB, []) ''d'' [] =
           Some (Inr (processResultLink (Link (last [aliasRow, docsRow])) []), (db', [] @ calls))
         \<and> linktable db' = linktable chainDB
         \<and> usageMatches calls \<and> hits calls = [aliasRow, docsRow]
         \<and> recorded calls = map ID [aliasRow, docsRow]
         \<and> length calls = 2 * length [aliasRow, docsRow])
   \<and> dbGetByWord chainDB (TrimSpace ''docs'') = (Inr (Some docsRow), chainDB)
   \<and> isURL (Link docsRow)
   \<and> fst (failingLog [] (ID docsRow)) = Some (StorageError ''database is closed'')
   \<and> GetLink (onStore dbGetByWord) (onLog failingLog) (chainDB, []) ''docs'' ''x'' =
       Some (Inr (processResultLink (Link docsRow) ''x''), (chainDB, snd (failingLog [] (ID docsRow))))"
proof -
  let ?calls = "[GetByWordCall ''d'' (Inr (Some aliasRow)), CreateQueryCall 1 None,
             GetByWordCall ''docs'' (Inr (Some docsRow)), CreateQueryCall 2 None]"
  let ?db = "chainDB\<lparr>queries := [\<lparr>QueryID = 1, WordID = 1, QueryCreatedAt = 0\<rparr>,
                                  \<lparr>QueryID = 2, WordID = 2, QueryCreatedAt = 0\<rparr>]\<rparr>"
  have run: "GetLink (traceGetByWord dbGetByWord) (traceCreateQuery (QueryRepository_Create 0))
       (chainDB, []) ''d'' [] = Some (Inr ''https://docs.example.com'', (?db, ?calls))"
    by code_simp
  have run2: "GetLink (traceGetByWord (onStore dbGetByWord)) (traceCreateQuery (onLog failingLog))
         ((chainDB, []), []) ''d'' [] =
       Some (Inr ''https://docs.example.com'',
             ((chainDB, []),
              [GetByWordCall ''d'' (Inr (Some aliasRow)),
               CreateQueryCall 1 (Some (StorageError ''database is closed'')),
               GetByWordCall ''docs'' (Inr (Some docsRow)),
               CreateQueryCall 2 (Some (StorageError ''database is closed''))]))"
    by code_simp
  have run3: "GetLink (traceGetByWord dbGetByWord) (traceCreateQuery (QueryRepository_Create 0))
         (chainDB, []) ''nothing'' [] =
       Some (Inl (InvalidQueryError ''Unable to find link for query nothing ''),
             (chainDB, [GetByWordCall ''nothing'' (Inr None)]))"
    by code_simp
  have r1: "GetLink (onStore dbGetByWord) (onLog recordingLog) (chainDB, []) ''d'' [] =
       Some (Inr ''https://docs.example.com'', (chainDB, [1, 2]))"
    by code_simp
  have r2: "GetLink (onStore dbGetByWord) (onLog failingLog) (chainDB, []) ''d'' [] =
       Some (Inr ''https://docs.example.com'', (chainDB, []))"
    by code_simp
  have h: "dbGetByWord chainDB (TrimSpace ''docs'') = (Inr (Some docsRow), chainDB)
     \<and> isURL (Link docsRow)
     \<and> fst (failingLog [] (ID docsRow)) = Some (StorageError ''database is closed'')"
    by code_simp
  have h1: "onStore dbGetByWord (chainDB, [] :: int list) (TrimSpace ''d'') =
      (Inr (Some aliasRow), (chainDB, []))"
    by code_simp
  have h1': "\<not> isURL (Link aliasRow)
   \<and> snd (onLog failingLog (chainDB, []) (ID aliasRow)) = (chainDB, [])
   \<and> fst (onLog failingLog (chainDB, []) (ID aliasRow)) = Some (StorageError ''database is closed'')"
    by code_simp
  have h2: "dbGetByWord chainDB (TrimSpace ''nothing'') = (Inr None, chainDB)" by code_simp
  have h2': "\<forall>found. (Inr None :: error + Shortcut option) \<noteq> Inr (Some found)" by simp
  have ch: "aliasChain (linktable chainDB) ''d'' [aliasRow, docsRow]" by code_simp
  note t = usage_logging[where getByWord = dbGetByWord and createQuery = "QueryRepository_Create 0"
      and w = chainDB and ?log0.0 = "[]" and word = "''d''" and tail = "[]"
      and r = "Inr ''https://docs.example.com''" and w' = ?db and log = ?calls
      and storeGetByWord = dbGetByWord and ?createQuery1.0 = failingLog
      and ?createQuery2.0 = recordingLog and s = chainDB and ?q1.0 = "[]" and ?q2.0 = "[]"
      and db = chainDB and scs = "[aliasRow, docsRow]" and now = 0]
  note v = usage_logging[where getByWord = "onStore dbGetByWord" and createQuery = "onLog failingLog"
      and w = "(chainDB, [])" and ?log0.0 = "[]" and word = "''d''" and tail = "[]"
      and shortcut = aliasRow and ?w1.0 = "(chainDB, [])", THEN conjunct1, THEN mp, OF h1]
  note n = usage_logging[where getByWord = dbGetByWord and createQuery = "QueryRepository_Create 0"
      and w = chainDB and ?log0.0 = "[]" and word = "''nothing''" and tail = "[]"
      and res = "Inr None" and ?w1.0 = chainDB, THEN conjunct2, THEN conjunct1, THEN mp,
      OF conjI[OF h2 h2']]
  note u = usage_logging[where storeGetByWord = dbGetByWord and ?createQuery1.0 = failingLog
      and s = chainDB and ?q1.0 = "[]" and word = "''docs''" and tail = "''x''"
      and shortcut = docsRow and ?s1.0 = chainDB and err = "StorageError ''database is closed''",
      THEN conjunct2, THEN conjunct2, THEN conjunct2, THEN conjunct2, THEN conjunct2,
      THEN conjunct2]
  have a: "\<exists>calls. ?calls = [] @ calls \<and> usageMatches calls"
    using t[THEN conjunct2, THEN conjunct2, THEN conjunct1] run by blast
  have b: "map_option (\<lambda>y. (fst y, fst (snd y)))
         (GetLink (onStore dbGetByWord) (onLog failingLog) (chainDB, []) ''d'' []) =
       map_option (\<lambda>y. (fst y, fst (snd y)))
         (GetLink (onStore dbGetByWord) (onLog recordingLog) (chainDB, []) ''d'' [])"
    using t[THEN conjunct2, THEN conjunct2, THEN conjunct2, THEN conjunct1] .
  note d5 = t[THEN conjunct2, THEN conjunct2, THEN conjunct2, THEN conjunct2, THEN conjunct1,
      THEN mp, OF ch]
  note d6 = t[THEN conjunct2, THEN conjunct2, THEN conjunct2, THEN conjunct2, THEN conjunct2,
      THEN conjunct1, THEN mp, OF ch]
  have c: "GetLink (onStore dbGetByWord) (onLog failingLog) (chainDB, []) ''docs'' ''x'' =
       Some (Inr (processResultLink (Link docsRow) ''x''), (chainDB, snd (failingLog [] (ID docsRow))))"
    using u h by blast
  show ?thesis
    by (intro conjI) (rule run a h1 v h1'[THEN conjunct1] h1'[THEN conjunct2, THEN conjunct1]
        h1'[THEN conjunct2, THEN conjunct2] h2 h2' run3 b r1 r2 ch d5 run2 d6 c
        h[THEN conjunct1] h[THEN conjunct2, THEN conjunct1] h[THEN conjunct2, THEN conjunct2])+
qed


subsection \<open>The word-splitting retry\<close>

lemma retry_loop:
  "TrimSpace h = h \<Longrightarrow>
    \<exists>heads wk rest.
      heads \<noteq> [] \<and> hd heads = h \<and> dropsLastWord heads \<and> distinct heads
      \<and> length heads \<le> max 1 (length (Fields h))
      \<and> (\<forall>x \<in> set heads. length (Fields x) \<le> length (Fields h))
      \<and> retried getByWord w (butlast heads) = Some wk
      \<and> \<not> retries getByWord wk (last heads)
      \<and> TrimSpace (last heads) = last heads
      \<and> Fields (last heads) @ Fields rest = Fields h @ Fields tail
      \<and> GetLink (traceGetByWord getByWord) (traceCreateQuery createQuery) (w, log) h tail =
          GetLink (traceGetByWord getByWord) (traceCreateQuery createQuery)
            (wk, log @ map (\<lambda>x. GetByWordCall x (Inr None)) (butlast heads)) (last heads) rest"
proof (induction "length (Fields h)" arbitrary: h w log tail rule: less_induct)
  case less
  let ?G = "GetLink (traceGetByWord getByWord) (traceCreateQuery createQuery)"
  show ?case
  proof (cases "retries getByWord w h")
    case False
    have "[h] \<noteq> [] \<and> hd [h] = h \<and> dropsLastWord [h] \<and> distinct [h]
      \<and> length [h] \<le> max 1 (length (Fields h))
      \<and> (\<forall>x \<in> set [h]. length (Fields x) \<le> length (Fields h))
      \<and> retried getByWord w (butlast [h]) = Some w
      \<and> \<not> retries getByWord w (last [h])
      \<and> TrimSpace (last [h]) = last [h]
      \<and> Fields (last [h]) @ Fields tail = Fields h @ Fields tail
      \<and> ?G (w, log) h tail =
          ?G (w, log @ map (\<lambda>x. GetByWordCall x (Inr None)) (butlast [h])) (last [h]) tail"
      using False less.prems by simp
    then show ?thesis by blast
  next
    case True
    then have miss: "fst (getByWord w h) = Inr None" and sp: "Contains h '' ''"
      by (simp_all add: retries_def)
    let ?w1 = "(snd (getByWord w h), log @ [GetByWordCall h (Inr None)])"
    have look: "traceGetByWord getByWord (w, log) (TrimSpace h) = (Inr None, ?w1)"
      using less.prems miss by (simp add: traceGetByWord_miss)
    define h' where "h' = fst (moveLastWord h tail)"
    define t' where "t' = snd (moveLastWord h tail)"
    note sh = shorter_head[OF less.prems sp, of tail, folded h'_def]
    have step: "?G (w, log) h tail = ?G ?w1 h' t'"
      using look sp less.prems unfolding h'_def t'_def by (simp add: GetLink_miss_split)
    have "length (Fields h') < length (Fields h)" using sh(5) by simp
    from less.hyps[OF this sh(4), where w = "snd (getByWord w h)"
        and log = "log @ [GetByWordCall h (Inr None)]" and tail = t']
    obtain heads wk rest where ih:
      "heads \<noteq> []" "hd heads = h'" "dropsLastWord heads" "distinct heads"
      "length heads \<le> max 1 (length (Fields h'))"
      "\<forall>x \<in> set heads. length (Fields x) \<le> length (Fields h')"
      "retried getByWord (snd (getByWord w h)) (butlast heads) = Some wk"
      "\<not> retries getByWord wk (last heads)"
      "TrimSpace (last heads) = last heads"
      "Fields (last heads) @ Fields rest = Fields h' @ Fields t'"
      "?G ?w1 h' t' = ?G (wk, (log @ [GetByWordCall h (Inr None)]) @
          map (\<lambda>x. GetByWordCall x (Inr None)) (butlast heads)) (last heads) rest"
      by blast
    have two: "2 \<le> length (Fields h)" using less.prems sp by (rule Fields_trimmed_space)
    then have ne: "Fields h \<noteq> []" by auto
    have "t' = Join (last (Fields h) # Fields tail) '' ''"
      unfolding t'_def by (simp add: moveLastWord_fields[OF ne])
    moreover have "\<forall>f \<in> set (last (Fields h) # Fields tail). f \<noteq> [] \<and> nospace f"
      using Fields_fields[of _ h] Fields_fields[of _ tail] last_in_set[OF ne] by auto
    ultimately have ft: "Fields t' = last (Fields h) # Fields tail"
      by (simp only: Fields_Join)
    have k: "Fields (last (h # heads)) @ Fields rest = Fields h @ Fields tail"
      using ih(1,10) ft sh(3) by simp
    have b: "dropsLastWord (h # heads)"
      using ih(1,2,3) sh(3) by (cases heads) simp_all
    have c: "distinct (h # heads)"
      using ih(4,6) sh(5) by auto
    have d: "length (h # heads) \<le> max 1 (length (Fields h))"
      using ih(5) sh(5) two by simp
    have e: "\<forall>x \<in> set (h # heads). length (Fields x) \<le> length (Fields h)"
      using ih(6) sh(5) by auto
    have f: "retried getByWord w (butlast (h # heads)) = Some wk"
      using ih(1,7) True by simp
    have g: "?G (w, log) h tail =
          ?G (wk, log @ map (\<lambda>x. GetByWordCall x (Inr None)) (butlast (h # heads)))
            (last (h # heads)) rest"
      using step ih(1,11) by simp
    have "h # heads \<noteq> [] \<and> hd (h # heads) = h \<and> dropsLastWord (h # heads) \<and> distinct (h # heads)
      \<and> length (h # heads) \<le> max 1 (length (Fields h))
      \<and> (\<forall>x \<in> set (h # heads). length (Fields x) \<le> length (Fields h))
      \<and> retried getByWord w (butlast (h # heads)) = Some wk
      \<and> \<not> retries getByWord wk (last (h # heads))
      \<and> TrimSpace (last (h # heads)) = last (h # heads)
      \<and> Fields (last (h # heads)) @ Fields rest = Fields h @ Fields tail
      \<and> ?G (w, log) h tail =
          ?G (wk, log @ map (\<lambda>x. GetByWordCall x (Inr None)) (butlast (h # heads)))
            (last (h # heads)) rest"
      using b c d e f g k ih(1,8,9) by simp
    then show ?thesis by blast
  qed
qed

lemma loop_ends_in_miss:
  assumes "\<not> retries getByWord wk h" and "fst (getByWord wk h) = Inr None" and "TrimSpace h = h"
  shows "GetLink (traceGetByWord getByWord) (traceCreateQuery createQuery) (wk, log) h rest =
           Some (Inl (InvalidQueryError (''Unable to find link for query '' @ h @ '' '' @ rest)),
                 (snd (getByWord wk h), log @ [GetByWordCall h (Inr None)]))"
proof -
  have "\<not> Contains (TrimSpace h) '' ''" using assms by (simp add: retries_def)
  moreover have "traceGetByWord getByWord (wk, log) (TrimSpace h) =
      (Inr None, (snd (getByWord wk h), log @ [GetByWordCall h (Inr None)]))"
    using assms by (simp add: traceGetByWord_miss)
  ultimately show ?thesis using assms(3)
    using GetLink_miss_fail[of "traceGetByWord getByWord" "(wk, log)" h
        "(snd (getByWord wk h), log @ [GetByWordCall h (Inr None)])" "traceCreateQuery createQuery" rest]
    by simp
qed

text \<open>
  Claim C5.  First conjunct: after a failed lookup of a head with a space in it,
  \<^verbatim>\<open>GetLink\<close> goes on with a head that has the same words but the last, which is
  trimmed and differs from the old head, and with that word in front of the tail.
  Second conjunct, for every keyword store, state and query: the retry loop is finite.
  There is a list of heads, starting with the trimmed query, each with the words of the
  one before but the last, pairwise different, at least one and at most as many as the
  query has words (one for a query without a word), such that the lookups of all but the
  last head fail and are retried, one after the other, the lookup of the last head is not
  retried (it returns a shortcut or an error, or the head has no space), the words of
  the last head followed by those of its tail are the words of the query followed by
  those of the tail, and the call is the call at the last head and that tail with
  exactly the failed lookups in the log; if the last
  lookup fails too, the call returns with the lookups of these heads and no other.
  Third conjunct: over a store in which every lookup fails, the call returns with such a
  list of lookups.
\<close>

theorem word_splitting_retry:
  "(getByWord w (TrimSpace word) = (Inr None, w1) \<and> Contains (TrimSpace word) '' '' \<longrightarrow>
      (\<exists>newWord newTail.
         GetLink getByWord createQuery w word tail = GetLink getByWord createQuery w1 newWord newTail
         \<and> Fields (TrimSpace word) = Fields newWord @ [last (Fields (TrimSpace word))]
         \<and> newTail = Join (last (Fields (TrimSpace word)) # Fields tail) '' ''
         \<and> TrimSpace newWord = newWord \<and> newWord \<noteq> TrimSpace word))
   \<and> (\<exists>heads wk rest.
         heads \<noteq> [] \<and> hd heads = TrimSpace query \<and> dropsLastWord heads \<and> distinct heads
         \<and> 1 \<le> length heads \<and> length heads \<le> max 1 (length (Fields query))
         \<and> retried getByWord w (butlast heads) = Some wk
         \<and> \<not> retries getByWord wk (last heads)
         \<and> TrimSpace (last heads) = last heads
         \<and> Fields (last heads) @ Fields rest = Fields query @ Fields tail
         \<and> GetLink (traceGetByWord getByWord) (traceCreateQuery createQuery) (w, log0) query tail =
             GetLink (traceGetByWord getByWord) (traceCreateQuery createQuery)
               (wk, log0 @ map (\<lambda>h. GetByWordCall h (Inr None)) (butlast heads)) (last heads) rest
         \<and> (fst (getByWord wk (last heads)) = Inr None \<longrightarrow>
              GetLink (traceGetByWord getByWord) (traceCreateQuery createQuery) (w, log0) query tail =
                Some (Inl (InvalidQueryError
                        (''Unable to find link for query '' @ last heads @ '' '' @ rest)),
                      (snd (getByWord wk (last heads)),
                       log0 @ map (\<lambda>h. GetByWordCall h (Inr None)) heads))))
   \<and> ((\<forall>w k. fst (getByWord w k) = Inr None) \<longrightarrow>
        (\<exists>heads msg w'.
           GetLink (traceGetByWord getByWord) (traceCreateQuery createQuery) (w, []) query tail =
             Some (Inl (InvalidQueryError msg), (w', map (\<lambda>h. GetByWordCall h (Inr None)) heads))
           \<and> hd heads = TrimSpace query \<and> dropsLastWord heads \<and> distinct heads
           \<and> 1 \<le> length heads \<and> length heads \<le> max 1 (length (Fields query))))"
proof (intro conjI impI)
  assume a: "getByWord w (TrimSpace word) = (Inr None, w1) \<and> Contains (TrimSpace word) '' ''"
  let ?h = "TrimSpace word"
  have tr: "TrimSpace ?h = ?h" by simp
  note sh = shorter_head[OF tr conjunct2[OF a], of tail]
  have two: "2 \<le> length (Fields ?h)" using tr conjunct2[OF a] by (rule Fields_trimmed_space)
  then have ne: "Fields ?h \<noteq> []" by auto
  have "GetLink getByWord createQuery w word tail =
          GetLink getByWord createQuery w1 (fst (moveLastWord ?h tail)) (snd (moveLastWord ?h tail))"
    using a by (simp add: GetLink_miss_split)
  moreover have "snd (moveLastWord ?h tail) = Join (last (Fields ?h) # Fields tail) '' ''"
    using moveLastWord_fields[OF ne, of tail] by simp
  ultimately show "\<exists>newWord newTail.
         GetLink getByWord createQuery w word tail = GetLink getByWord createQuery w1 newWord newTail
         \<and> Fields (TrimSpace word) = Fields newWord @ [last (Fields (TrimSpace word))]
         \<and> newTail = Join (last (Fields (TrimSpace word)) # Fields tail) '' ''
         \<and> TrimSpace newWord = newWord \<and> newWord \<noteq> TrimSpace word"
    using sh(3,4,6) by blast
next
  let ?G = "GetLink (traceGetByWord getByWord) (traceCreateQuery createQuery)"
  have tq: "TrimSpace (TrimSpace query) = TrimSpace query" by simp
  from retry_loop[OF tq, where getByWord = getByWord and w = w and createQuery = createQuery
      and log = log0 and tail = tail]
  obtain heads wk rest where h0:
    "heads \<noteq> [] \<and> hd heads = TrimSpace query \<and> dropsLastWord heads \<and> distinct heads
      \<and> length heads \<le> max 1 (length (Fields (TrimSpace query)))
      \<and> (\<forall>x \<in> set heads. length (Fields x) \<le> length (Fields (TrimSpace query)))
      \<and> retried getByWord w (butlast heads) = Some wk
      \<and> \<not> retries getByWord wk (last heads)
      \<and> TrimSpace (last heads) = last heads
      \<and> Fields (last heads) @ Fields rest = Fields (TrimSpace query) @ Fields tail
      \<and> ?G (w, log0) (TrimSpace query) tail =
          ?G (wk, log0 @ map (\<lambda>x. GetByWordCall x (Inr None)) (butlast heads)) (last heads) rest"
    by blast
  have h:
    "heads \<noteq> []" "hd heads = TrimSpace query" "dropsLastWord heads" "distinct heads"
    "length heads \<le> max 1 (length (Fields query))"
    "retried getByWord w (butlast heads) = Some wk"
    "\<not> retries getByWord wk (last heads)"
    "TrimSpace (last heads) = last heads"
    "Fields (last heads) @ Fields rest = Fields query @ Fields tail"
    "?G (w, log0) query tail =
       ?G (wk, log0 @ map (\<lambda>x. GetByWordCall x (Inr None)) (butlast heads)) (last heads) rest"
    using h0 by (simp_all add: GetLink_TrimSpace)
  from h(1) have one: "1 \<le> length heads" by (cases heads) simp_all
  have all: "map (\<lambda>x. GetByWordCall x (Inr None)) (butlast heads) @ [GetByWordCall (last heads) (Inr None)] =
             map (\<lambda>x. GetByWordCall x (Inr None)) heads"
  proof -
    have "map (\<lambda>x. GetByWordCall x (Inr None)) (butlast heads @ [last heads]) =
          map (\<lambda>x. GetByWordCall x (Inr None)) heads"
      using append_butlast_last_id[OF h(1)] by simp
    then show ?thesis by simp
  qed
  have fin: "fst (getByWord wk (last heads)) = Inr None \<longrightarrow>
              ?G (w, log0) query tail =
                Some (Inl (InvalidQueryError
                        (''Unable to find link for query '' @ last heads @ '' '' @ rest)),
                      (snd (getByWord wk (last heads)),
                       log0 @ map (\<lambda>h. GetByWordCall h (Inr None)) heads))"
  proof
    assume m: "fst (getByWord wk (last heads)) = Inr None"
    show "?G (w, log0) query tail =
                Some (Inl (InvalidQueryError
                        (''Unable to find link for query '' @ last heads @ '' '' @ rest)),
                      (snd (getByWord wk (last heads)),
                       log0 @ map (\<lambda>h. GetByWordCall h (Inr None)) heads))"
      unfolding h(10) loop_ends_in_miss[OF h(7) m h(8)] using all by simp
  qed
  show "\<exists>heads wk rest.
         heads \<noteq> [] \<and> hd heads = TrimSpace query \<and> dropsLastWord heads \<and> distinct heads
         \<and> 1 \<le> length heads \<and> length heads \<le> max 1 (length (Fields query))
         \<and> retried getByWord w (butlast heads) = Some wk
         \<and> \<not> retries getByWord wk (last heads)
         \<and> TrimSpace (last heads) = last heads
         \<and> Fields (last heads) @ Fields rest = Fields query @ Fields tail
         \<and> GetLink (traceGetByWord getByWord) (traceCreateQuery createQuery) (w, log0) query tail =
             GetLink (traceGetByWord getByWord) (traceCreateQuery createQuery)
               (wk, log0 @ map (\<lambda>h. GetByWordCall h (Inr None)) (butlast heads)) (last heads) rest
         \<and> (fst (getByWord wk (last heads)) = Inr None \<longrightarrow>
              GetLink (traceGetByWord getByWord) (traceCreateQuery createQuery) (w, log0) query tail =
                Some (Inl (InvalidQueryError
                        (''Unable to find link for query '' @ last heads @ '' '' @ rest)),
                      (snd (getByWord wk (last heads)),
                       log0 @ map (\<lambda>h. GetByWordCall h (Inr None)) heads)))"
    by (intro exI[of _ heads] exI[of _ wk] exI[of _ rest] conjI) (rule h one fin)+
next
  assume miss: "\<forall>w k. fst (getByWord w k) = Inr None"
  have "\<exists>heads msg w'.
      GetLink (traceGetByWord getByWord) (traceCreateQuery createQuery) (w, []) (TrimSpace query) tail =
        Some (Inl (InvalidQueryError msg), (w', [] @ map (\<lambda>x. GetByWordCall x (Inr None)) heads))
      \<and> heads \<noteq> [] \<and> hd heads = TrimSpace query \<and> dropsLastWord heads \<and> distinct heads
      \<and> length heads \<le> max 1 (length (Fields (TrimSpace query)))
      \<and> (\<forall>x \<in> set heads. length (Fields x) \<le> length (Fields (TrimSpace query)))"
    by (rule split_loop) (use miss in simp_all)
  then obtain heads msg w' where h:
    "GetLink (traceGetByWord getByWord) (traceCreateQuery createQuery) (w, []) (TrimSpace query) tail =
        Some (Inl (InvalidQueryError msg), (w', map (\<lambda>x. GetByWordCall x (Inr None)) heads))"
    "heads \<noteq> []" "hd heads = TrimSpace query" "dropsLastWord heads" "distinct heads"
    "length heads \<le> max 1 (length (Fields query))"
    by auto
  from h(2) have "1 \<le> length heads" by (cases heads) simp_all
  with h show "\<exists>heads msg w'.
           GetLink (traceGetByWord getByWord) (traceCreateQuery createQuery) (w, []) query tail =
             Some (Inl (InvalidQueryError msg), (w', map (\<lambda>h. GetByWordCall h (Inr None)) heads))
           \<and> hd heads = TrimSpace query \<and> dropsLastWord heads \<and> distinct heads
           \<and> 1 \<le> length heads \<and> length heads \<le> max 1 (length (Fields query))"
    unfolding GetLink_TrimSpace by blast
qed

text \<open>
  The bound "at most the number of words of the query" fails for the empty query, which
  has no word and is looked up once.
\<close>

theorem word_splitting_retry_counterexample:
  "Resolve (traceGetByWord noShortcuts) (traceCreateQuery (QueryRepository_Create 0)) (emptyDB, []) [] =
     Some (Inl (InvalidQueryError ''Unable to find link for query  ''),
           (emptyDB, [GetByWordCall [] (Inr None)]))
   \<and> length [GetByWordCall [] (Inr None)] = 1
   \<and> length (Fields []) = 0"
  by code_simp

text \<open>The theorem at a query of three words: over a keyword store without a shortcut
  (three failed lookups), and over the store of the tests, where the third lookup finds
  \<^verbatim>\<open>search\<close>; and the two runs themselves.\<close>

theorem word_splitting_retry_witness:
  "noShortcuts emptyDB (TrimSpace ''search golang tutorial'') = (Inr None, emptyDB)
   \<and> Contains (TrimSpace ''search golang tutorial'') '' ''
   \<and> (\<exists>newWord newTail.
         GetLink noShortcuts (QueryRepository_Create 0) emptyDB ''search golang tutorial'' [] =
           GetLink noShortcuts (QueryRepository_Create 0) emptyDB newWord newTail
         \<and> Fields (TrimSpace ''search golang tutorial'') =
             Fields newWord @ [last (Fields (TrimSpace ''search golang tutorial''))]
         \<and> newTail = Join (last (Fields (TrimSpace ''search golang tutorial'')) # Fields []) '' ''
         \<and> TrimSpace newWord = newWord \<and> newWord \<noteq> TrimSpace ''search golang tutorial'')
   \<and> (\<exists>heads wk rest.
         heads \<noteq> [] \<and> hd heads = TrimSpace ''search golang tutorial'' \<and> dropsLastWord heads
         \<and> distinct heads
         \<and> 1 \<le> length heads \<and> length heads \<le> max 1 (length (Fields ''search golang tutorial''))
         \<and> retried dbGetByWord searchDB (butlast heads) = Some wk
         \<and> \<not> retries dbGetByWord wk (last heads)
         \<and> TrimSpace (last heads) = last heads
         \<and> Fields (last heads) @ Fields rest = Fields ''search golang tutorial'' @ Fields []
         \<and> GetLink (traceGetByWord dbGetByWord) (traceCreateQuery (QueryRepository_Create 0))
               (searchDB, []) ''search golang tutorial'' [] =
             GetLink (traceGetByWord dbGetByWord) (traceCreateQuery (QueryRepository_Create 0))
               (wk, [] @ map (\<lambda>h. GetByWordCall h (Inr None)) (butlast heads)) (last heads) rest
         \<and> (fst (dbGetByWord wk (last heads)) = Inr None \<longrightarrow>
              GetLink (traceGetByWord dbGetByWord) (traceCreateQuery (QueryRepository_Create 0))
                  (searchDB, []) ''search golang tutorial'' [] =
                Some (Inl (InvalidQueryError
                        (''Unable to find link for query '' @ last heads @ '' '' @ rest)),
                      (snd (dbGetByWord wk (last heads)),
                       [] @ map (\<lambda>h. GetByWordCall h (Inr None)) heads))))
   \<and> retried dbGetByWord searchDB [''search golang tutorial'', ''search golang''] = Some searchDB
   \<and> \<not> retries dbGetByWord searchDB ''search''
   \<and> GetLink (traceGetByWord dbGetByWord) (traceCreateQuery (QueryRepository_Create 0))
         (searchDB, []) ''search golang tutorial'' [] =
       Some (Inr ''https://google.com/search?q=golang+tutorial'',
             (searchDB\<lparr>queries := [\<lparr>QueryID = 1, WordID = 1, QueryCreatedAt = 0\<rparr>]\<rparr>,
              [GetByWordCall ''search golang tutorial'' (Inr None),
               GetByWordCall ''search golang'' (Inr None),
               GetByWordCall ''search'' (Inr (Some searchRow)),
               CreateQueryCall 1 None]))
   \<and> (\<forall>w k. fst (noShortcuts w k) = Inr None)
   \<and> (\<exists>heads msg w'.
         GetLink (traceGetByWord noShortcuts) (traceCreateQuery (QueryRepository_Create 0))
             (emptyDB, []) ''search golang tutorial'' [] =
           Some (Inl (InvalidQueryError msg), (w', map (\<lambda>h. GetByWordCall h (Inr None)) heads))
         \<and> hd heads = TrimSpace ''search golang tutorial'' \<and> dropsLastWord heads \<and> distinct heads
         \<and> 1 \<le> length heads \<and> length heads \<le> max 1 (length (Fields ''search golang tutorial'')))
   \<and> GetLink (traceGetByWord noShortcuts) (traceCreateQuery (QueryRepository_Create 0))
         (emptyDB, []) ''search golang tutorial'' [] =
       Some (Inl (InvalidQueryError ''Unable to find link for query search golang tutorial''),
             (emptyDB, [GetByWordCall ''search golang tutorial'' (Inr None),
                        GetByWordCall ''search golang'' (Inr None),
                        GetByWordCall ''search'' (Inr None)]))
   \<and> length (Fields ''search golang tutorial'') = 3"
proof -
  have h1: "noShortcuts emptyDB (TrimSpace ''search golang tutorial'') = (Inr None, emptyDB)"
    by (simp add: noShortcuts_def)
  have h2: "Contains (TrimSpace ''search golang tutorial'') '' ''" by code_simp
  have h3: "\<forall>w k. fst (noShortcuts w k) = Inr None" by (simp add: noShortcuts_def)
  have c: "GetLink (traceGetByWord noShortcuts) (traceCreateQuery (QueryRepository_Create 0))
         (emptyDB, []) ''search golang tutorial'' [] =
       Some (Inl (InvalidQueryError ''Unable to find link for query search golang tutorial''),
             (emptyDB, [GetByWordCall ''search golang tutorial'' (Inr None),
                        GetByWordCall ''search golang'' (Inr None),
                        GetByWordCall ''search'' (Inr None)]))
   \<and> length (Fields ''search golang tutorial'') = 3"
    by code_simp
  have d: "retried dbGetByWord searchDB [''search golang tutorial'', ''search golang''] = Some searchDB
   \<and> \<not> retries dbGetByWord searchDB ''search''
   \<and> GetLink (traceGetByWord dbGetByWord) (traceCreateQuery (QueryRepository_Create 0))
         (searchDB, []) ''search golang tutorial'' [] =
       Some (Inr ''https://google.com/search?q=golang+tutorial'',
             (searchDB\<lparr>queries := [\<lparr>QueryID = 1, WordID = 1, QueryCreatedAt = 0\<rparr>]\<rparr>,
              [GetByWordCall ''search golang tutorial'' (Inr None),
               GetByWordCall ''search golang'' (Inr None),
               GetByWordCall ''search'' (Inr (Some searchRow)),
               CreateQueryCall 1 None]))"
    by code_simp
  note t = word_splitting_retry[where getByWord = noShortcuts and w = emptyDB
      and word = "''search golang tutorial''" and ?w1.0 = emptyDB
      and createQuery = "QueryRepository_Create 0" and tail = "[]"
      and query = "''search golang tutorial''" and ?log0.0 = "[]"]
  note u = word_splitting_retry[where getByWord = dbGetByWord and w = searchDB
      and createQuery = "QueryRepository_Create 0" and tail = "[]"
      and query = "''search golang tutorial''" and ?log0.0 = "[]",
      THEN conjunct2, THEN conjunct1]
  have a: "\<exists>newWord newTail.
         GetLink noShortcuts (QueryRepository_Create 0) emptyDB ''search golang tutorial'' [] =
           GetLink noShortcuts (QueryRepository_Create 0) emptyDB newWord newTail
         \<and> Fields (TrimSpace ''search golang tutorial'') =
             Fields newWord @ [last (Fields (TrimSpace ''search golang tutorial''))]
         \<and> newTail = Join (last (Fields (TrimSpace ''search golang tutorial'')) # Fields []) '' ''
         \<and> TrimSpace newWord = newWord \<and> newWord \<noteq> TrimSpace ''search golang tutorial''"
    using t[THEN conjunct1] h1 h2 by blast
  have b: "\<exists>heads msg w'.
         GetLink (traceGetByWord noShortcuts) (traceCreateQuery (QueryRepository_Create 0))
             (emptyDB, []) ''search golang tutorial'' [] =
           Some (Inl (InvalidQueryError msg), (w', map (\<lambda>h. GetByWordCall h (Inr None)) heads))
         \<and> hd heads = TrimSpace ''search golang tutorial'' \<and> dropsLastWord heads \<and> distinct heads
         \<and> 1 \<le> length heads \<and> length heads \<le> max 1 (length (Fields ''search golang tutorial''))"
    using t[THEN conjunct2, THEN conjunct2] h3 by blast
  show ?thesis
    by (intro conjI) (rule h1 h2 h3 a b u c[THEN conjunct1] c[THEN conjunct2]
        d[THEN conjunct1] d[THEN conjunct2, THEN conjunct1] d[THEN conjunct2, THEN conjunct2])+
qed

end
